theory Spec2Isabelle
  imports Main "HOL-Library.Char_ord" "HOL-Library.Sublist" "HOL-Library.Word"
begin

unbundle bit_operations_syntax

section \<open>bcftools convert (vcfconvert.c): a shallow embedding\<close>

text \<open>
  The theory follows \<^verbatim>\<open>src/vcfconvert.c\<close> function by function. C strings are
  \<^typ>\<open>string\<close>s holding the characters before the terminating NUL. The counters of
  \<^verbatim>\<open>args->n\<close> are 32-bit words, read as signed with \<^const>\<open>sint\<close>: an increment at the
  largest value wraps around to the least one, as the addition of the compiled code does.
  The other C \<^verbatim>\<open>int\<close>s of the file (array slots, return codes, flags) stay within a few
  small values and are \<^typ>\<open>int\<close>. \<^verbatim>\<open>error()\<close>, which prints and exits, is a value of the
  type \<open>error\<close> in the left half of a sum.
\<close>

subsection \<open>Characters and C strings\<close>

definition NUL :: char where
  "NUL = CHR 0x00"

text \<open>
  \<^verbatim>\<open>s[i]\<close> on a NUL-terminated buffer whose characters before the terminator are \<open>s\<close>.
  The terminator itself is read at \<open>i = length s\<close>; the model gives NUL beyond it as well,
  where the C program reads outside the string.
\<close>

definition at :: "string \<Rightarrow> nat \<Rightarrow> char" where
  "at s i = (if i < length s then s ! i else NUL)"

text \<open>
  The C string that starts at the first byte of a buffer: the bytes before the first NUL.
  A \<^verbatim>\<open>kstring_t\<close> filled with \<^verbatim>\<open>kputc\<close> may hold a NUL byte, and a function that takes
  its \<^verbatim>\<open>s\<close> as a string sees the text before it.
\<close>

definition c_str :: "string \<Rightarrow> string" where
  "c_str buf = takeWhile (\<lambda>ch. ch \<noteq> NUL) buf"

text \<open>\<^verbatim>\<open>toupper\<close> and \<^verbatim>\<open>tolower\<close> of ctype.h in the C locale.\<close>

definition toupper :: "char \<Rightarrow> char" where
  "toupper c = (if CHR ''a'' \<le> c \<and> c \<le> CHR ''z'' then char_of (of_char c - (32::nat)) else c)"

definition tolower :: "char \<Rightarrow> char" where
  "tolower c = (if CHR ''A'' \<le> c \<and> c \<le> CHR ''Z'' then char_of (of_char c + (32::nat)) else c)"

subsection \<open>Errors\<close>

text \<open>One constructor for each call of \<^verbatim>\<open>error()\<close> and for \<^verbatim>\<open>usage()\<close>, which exits too.\<close>

datatype error =
    Failed_to_read_regions
  | Failed_to_read_targets
  | Failed_to_open
  | Error_parsing_sample_list
  | Sample_name_mismatch int
  | Could_not_parse_samples
  | Number_of_samples_does_not_match
  | Todo_tag string
  | Failed_to_write_samples
  | Error_writing_gen
  | Error_closing_gen
  | Fetch_seq_failed
  | Too_few_columns
  | Expected_two_characters
  | Could_not_update_GT
  | Missing_ref_option
  | Missing_samples_option
  | Could_not_load_reference
  | Could_not_read_input
  | Close_failed
  | Output_type_not_recognised string
  | Unknown_argument
  | Usage

subsection \<open>The per-run counters \<^verbatim>\<open>args->n\<close>\<close>

record counters =
  total :: "32 word"
  skipped :: "32 word"
  hom_rr :: "32 word"
  het_ra :: "32 word"
  hom_aa :: "32 word"
  het_aa :: "32 word"

subsection \<open>Decoding one call: \<^verbatim>\<open>acgt_to_5\<close> and \<^verbatim>\<open>tsv_setter_aa1\<close>\<close>

definition acgt_to_5 :: "char \<Rightarrow> nat" where
  "acgt_to_5 base =
     (if base = CHR ''A'' then 0
      else if base = CHR ''C'' then 1
      else if base = CHR ''G'' then 2
      else if base = CHR ''T'' then 3
      else 4)"

text \<open>
  Modelled from the spec: the macros \<^verbatim>\<open>bcf_gt_unphased\<close> and \<^verbatim>\<open>bcf_int32_vector_end\<close>
  of htslib's vcf.h are not in src/. The spec's GenotypeCall is a pair of allele indices,
  or a missing-second-allele sentinel for a haploid call: \<open>Unphased idx\<close> is the unphased
  encoding of the allele index \<open>idx\<close>, \<open>Vector_end\<close> is the sentinel.
\<close>

datatype gt = Unphased int | Vector_end

text \<open>
  \<^verbatim>\<open>tsv_setter_aa1(args, ss, se, alleles, nals, ref, gts)\<close>. \<open>ss\<close> is the text from the
  pointer \<^verbatim>\<open>ss\<close> to the end of the line, \<open>se\<close> is the offset of the pointer \<^verbatim>\<open>se\<close> from
  it, so that \<^verbatim>\<open>se - ss\<close> is \<open>int se\<close> and the token is \<open>take se ss\<close>. \<open>n\<close> is \<^verbatim>\<open>args->n\<close>,
  \<open>alleles\<close> the array of five slots, \<open>nals\<close> the value behind \<^verbatim>\<open>nals\<close>, \<open>gts\<close> the two
  slots behind \<^verbatim>\<open>gts\<close>. The result is the return value with everything the function
  may have written.
\<close>

definition tsv_setter_aa1 ::
  "counters \<Rightarrow> string \<Rightarrow> nat \<Rightarrow> int list \<Rightarrow> int \<Rightarrow> nat \<Rightarrow> gt \<times> gt
     \<Rightarrow> int \<times> counters \<times> int list \<times> int \<times> (gt \<times> gt)" where
  "tsv_setter_aa1 n ss se alleles nals ref gts =
     (if int se > 2 then (- 1, n, alleles, nals, gts)
      else if at ss 0 = CHR ''-'' then (- 2, n, alleles, nals, gts)
      else if at ss 0 = CHR ''I'' then (- 2, n, alleles, nals, gts)
      else if at ss 0 = CHR ''D'' then (- 2, n, alleles, nals, gts)
      else
        let a0 = acgt_to_5 (toupper (at ss 0));
            a1 = (if at ss 1 \<noteq> NUL then acgt_to_5 (toupper (at ss 1)) else a0);
            (alleles1, nals1) =
               (if alleles ! a0 < 0 then (alleles[a0 := nals], nals + 1) else (alleles, nals));
            (alleles2, nals2) =
               (if alleles1 ! a1 < 0 then (alleles1[a1 := nals1], nals1 + 1) else (alleles1, nals1));
            gts0 = Unphased (alleles2 ! a0);
            gts1 = (if at ss 1 \<noteq> NUL then Unphased (alleles2 ! a1) else Vector_end);
            n' = (if ref = a0 \<and> ref = a1 then n\<lparr>hom_rr := hom_rr n + 1\<rparr>
                  else if ref = a0 then n\<lparr>het_ra := het_ra n + 1\<rparr>
                  else if ref = a1 then n\<lparr>het_ra := het_ra n + 1\<rparr>
                  else if a0 = a1 then n\<lparr>hom_aa := hom_aa n + 1\<rparr>
                  else n\<lparr>het_aa := het_aa n + 1\<rparr>)
        in (0, n', alleles2, nals2, (gts0, gts1)))"

subsection \<open>Records read from the variant source, and \<^verbatim>\<open>args_t\<close>\<close>

text \<open>
  Modelled from the spec: the type \<^verbatim>\<open>bcf1_t\<close> of htslib is not in src/. Of the spec's
  VariantSite the model keeps the contig name, the position, the identifier, the reference
  allele, the ordered list of alternate alleles and the calls of the samples. The field
  \<^verbatim>\<open>n_allele\<close> counts the reference allele and the alternate ones.
\<close>

record bcf1 =
  chrom :: string
  pos :: int
  site_id :: string
  ref_allele :: string
  alt_alleles :: "string list"
  calls :: "(gt \<times> gt) list"

definition n_allele :: "bcf1 \<Rightarrow> nat" where
  "n_allele l = 1 + length (alt_alleles l)"

datatype convert_func = Vcf_to_gensample | Tsv_to_vcf

text \<open>The four values \<^verbatim>\<open>main_vcfconvert\<close> gives to \<^verbatim>\<open>output_type\<close> (constants of htslib).\<close>

datatype output_type = FT_BCF_GZ | FT_BCF | FT_VCF_GZ | FT_VCF

text \<open>
  \<^verbatim>\<open>args_t\<close>. A header is the list of its sample names, the only part of it the file
  reads. The handles \<^verbatim>\<open>filter\<close> and \<^verbatim>\<open>convert\<close> are the functions that \<^verbatim>\<open>filter_test\<close> and
  \<^verbatim>\<open>convert_line\<close> compute with them (\<open>None\<close> is the NULL filter; the converter is used
  only after \<^verbatim>\<open>convert_init\<close>). \<open>args_n\<close> is the member \<^verbatim>\<open>n\<close>. Pointers to strings are
  \<open>None\<close> when NULL.
\<close>

record args_t =
  filter_t :: "(bcf1 \<Rightarrow> int) option"
  filter_str :: "string option"
  filter_logic :: int
  convert :: "bcf1 \<Rightarrow> string"
  header :: "string list"
  convert_func :: "convert_func option"
  args_n :: counters
  str :: string
  gts :: "gt list"
  sample_is_file :: int
  targets_is_file :: int
  regions_is_file :: int
  output_type :: output_type
  sample_list :: "string option"
  targets_list :: "string option"
  regions_list :: "string option"
  tag :: "string option"
  outfname :: string
  infname :: "string option"
  ref_fname :: "string option"

definition FLT_INCLUDE :: int where
  "FLT_INCLUDE = 1"

definition FLT_EXCLUDE :: int where
  "FLT_EXCLUDE = 2"

text \<open>
  What a run meets outside the file: the return values and results of htslib, of the
  C library and of the modules filter.c and convert.c, none of which is in src/.
  \<open>set_samples hdr list is_file\<close> is \<^verbatim>\<open>bcf_hdr_set_samples\<close>: its return value and the
  sample names the header keeps. \<open>bgzf_write\<close> and \<open>bgzf_close\<close> see the events of the run
  so far and give the return value of the call. \<open>fopen_ok\<close>, \<open>fai_load_ok\<close> and
  \<open>in_open_ok\<close> tell whether the sample file, the reference and the tabular input open;
  \<open>in_close\<close> is the return value of \<^verbatim>\<open>hts_close\<close> on the input; \<open>accept_ret\<close> is the verdict
  of the tabular reader on the return value of a setter (see \<open>tsv_parse\<close> below).
\<close>

datatype event =
    Fopen string
  | Fprintf string
  | Fclose
  | Bgzf_open string string
  | Bgzf_write string
  | Bgzf_close

record env =
  set_regions :: int
  set_targets :: int
  add_reader :: bool
  reader_header :: "string list"
  set_samples :: "string list \<Rightarrow> string \<Rightarrow> int \<Rightarrow> int \<times> string list"
  hts_readlist :: "string \<Rightarrow> int \<Rightarrow> string list option"
  hdr_id2int :: "string list \<Rightarrow> string \<Rightarrow> int"
  filter_init :: "string list \<Rightarrow> string \<Rightarrow> bcf1 \<Rightarrow> int"
  convert_init :: "string list \<Rightarrow> int list \<Rightarrow> string \<Rightarrow> bcf1 \<Rightarrow> string"
  fopen_ok :: bool
  bgzf_write :: "event list \<Rightarrow> string \<Rightarrow> int"
  bgzf_close :: "event list \<Rightarrow> int"
  fai_load_ok :: bool
  in_open_ok :: bool
  in_close :: int
  accept_ret :: "int \<Rightarrow> bool"

subsection \<open>\<^verbatim>\<open>open_vcf\<close>\<close>

text \<open>
  \<^verbatim>\<open>open_vcf(args, format_str)\<close>. One reader is added, so the loop over the readers has
  one round. \<^verbatim>\<open>args->header\<close> points to the header of that reader, which
  \<^verbatim>\<open>bcf_hdr_set_samples\<close> restricts in place: the model stores the restricted names in
  \<open>header\<close>. The filter made on line 94 is replaced on line 130 before any use. The
  array \<^verbatim>\<open>samples\<close> is \<open>[]\<close> when it is NULL.
\<close>

definition open_vcf :: "env \<Rightarrow> args_t \<Rightarrow> string \<Rightarrow> error + args_t" where
  "open_vcf e args format_str =
     (if regions_list args \<noteq> None \<and> set_regions e < 0 then Inl Failed_to_read_regions
      else if targets_list args \<noteq> None \<and> set_targets e < 0 then Inl Failed_to_read_targets
      else if \<not> add_reader e then Inl Failed_to_open
      else
        let args1 = (case filter_str args of
                       None \<Rightarrow> args
                     | Some fs \<Rightarrow> args\<lparr>filter_t := Some (filter_init e (header args) fs)\<rparr>);
            args2 = args1\<lparr>header := reader_header e\<rparr>;
            finish = (\<lambda>hdr samples.
              let args3 = args2\<lparr>header := hdr,
                                 convert := convert_init e hdr samples format_str\<rparr>
              in Inr (case filter_str args3 of
                        None \<Rightarrow> args3
                      | Some fs \<Rightarrow> args3\<lparr>filter_t := Some (filter_init e (header args3) fs)\<rparr>))
        in case sample_list args2 of
             None \<Rightarrow> finish (header args2) []
           | Some sl \<Rightarrow>
               if sl = ''-'' then finish (header args2) []
               else
                 (case set_samples e (header args2) sl (sample_is_file args2) of (ret, hdr) \<Rightarrow>
                    if ret < 0 then Inl Error_parsing_sample_list
                    else if ret > 0 then Inl (Sample_name_mismatch ret)
                    else if at sl 0 \<noteq> CHR ''^'' then
                      (case hts_readlist e sl (sample_is_file args2) of
                         None \<Rightarrow> Inl Could_not_parse_samples
                       | Some smpls \<Rightarrow>
                           if int (length smpls) \<noteq> int (length hdr)
                           then Inl Number_of_samples_does_not_match
                           else finish hdr (map (hdr_id2int e hdr) smpls))
                    else finish hdr []))"

subsection \<open>\<^verbatim>\<open>vcf_to_gensample\<close>\<close>

text \<open>The scan \<^verbatim>\<open>while ( *t && *t!=',' ) t++\<close>: the text before \<^verbatim>\<open>t\<close> and the text at \<^verbatim>\<open>t\<close>.\<close>

fun until_comma :: "string \<Rightarrow> string \<times> string" where
  "until_comma [] = ([], [])"
| "until_comma (c # cs) =
     (if c = CHR '','' then ([], c # cs)
      else (c # fst (until_comma cs), snd (until_comma cs)))"

text \<open>\<^verbatim>\<open>strcasecmp(a, b) == 0\<close>: the two strings agree once both are lowered.\<close>

definition strcasecmp_eq :: "string \<Rightarrow> string \<Rightarrow> bool" where
  "strcasecmp_eq a b \<longleftrightarrow> map tolower a = map tolower b"

text \<open>
  Lines 143 to 164 of \<^verbatim>\<open>vcf_to_gensample\<close>: from \<^verbatim>\<open>args->outfname\<close> to \<^verbatim>\<open>gen_fname\<close>,
  \<^verbatim>\<open>sample_fname\<close> and \<^verbatim>\<open>is_compressed\<close>.
\<close>

definition output_names :: "string \<Rightarrow> string \<times> string \<times> int" where
  "output_names outf =
     (case until_comma outf of (before, t) \<Rightarrow>
        if at t 0 \<noteq> NUL then
          let gen_fname = before;
              is_compressed =
                (if length gen_fname < 3
                    \<or> \<not> strcasecmp_eq ''.gz'' (drop (length gen_fname - 3) gen_fname)
                 then 0 else 1);
              sample_fname = drop 1 t
          in (gen_fname, sample_fname, is_compressed)
        else (outf @ ''.gen.gz'', outf @ ''.samples'', 1))"

text \<open>Lines 181 to 186: does the site go on to the converter?\<close>

definition filter_pass :: "args_t \<Rightarrow> bcf1 \<Rightarrow> bool" where
  "filter_pass args l =
     (case filter_t args of
        None \<Rightarrow> True
      | Some flt \<Rightarrow>
          let pass = flt l;
              pass1 = (if filter_logic args AND FLT_EXCLUDE \<noteq> 0
                       then (if pass \<noteq> 0 then 0 else 1) else pass)
          in pass1 \<noteq> 0)"

text \<open>
  The loop over the records of the source. \<open>evs\<close> are the events of the run so far. The
  result is the events and the error that ended the run, if any.
\<close>

fun gen_lines :: "env \<Rightarrow> args_t \<Rightarrow> bcf1 list \<Rightarrow> event list \<Rightarrow> event list \<times> error option" where
  "gen_lines e args [] evs = (evs, None)"
| "gen_lines e args (l # ls) evs =
     (if n_allele l = 1 then gen_lines e args ls evs
      else if \<not> filter_pass args l then gen_lines e args ls evs
      else
        let s = convert args l
        in if length s \<noteq> 0 then
             (if bgzf_write e evs s \<noteq> int (length s) then (evs, Some Error_writing_gen)
              else gen_lines e args ls (evs @ [Bgzf_write s]))
           else gen_lines e args ls evs)"

definition format_prefix :: string where
  "format_prefix =
     ''%CHROM:%POS'' @ [CHR 0x5C] @ ''_%REF'' @ [CHR 0x5C]
       @ ''_%FIRST_ALT %_CHROM_POS_ID %POS %REF %FIRST_ALT''"

text \<open>
  \<^verbatim>\<open>vcf_to_gensample(args)\<close> on the records \<open>ls\<close> that the reader delivers, one for each
  successful \<^verbatim>\<open>bcf_sr_next_line\<close>.
\<close>

definition vcf_to_gensample :: "env \<Rightarrow> args_t \<Rightarrow> bcf1 list \<Rightarrow> event list \<times> error option" where
  "vcf_to_gensample e args ls =
     (case (if tag args = None \<or> tag args = Some ''GT''
            then Inr (format_prefix @ ''%_GT_TO_PROB3'' @ [CHR 0x0A])
            else if tag args = Some ''PL''
            then Inr (format_prefix @ ''%_PL_TO_PROB3'' @ [CHR 0x0A])
            else Inl (Todo_tag (case tag args of Some tg \<Rightarrow> tg | None \<Rightarrow> []))) of
        Inl err \<Rightarrow> ([], Some err)
      | Inr fmt \<Rightarrow>
          (case open_vcf e args fmt of
             Inl err \<Rightarrow> ([], Some err)
           | Inr args1 \<Rightarrow>
               (case output_names (outfname args1) of (gen_fname, sample_fname, is_compressed) \<Rightarrow>
                  if \<not> fopen_ok e then ([], Some Failed_to_write_samples)
                  else
                    let evs = [Fopen sample_fname, Fprintf (''ID_1 ID_2 missing'' @ [CHR 0x0A] @ ''0 0 0'' @ [CHR 0x0A])]
                              @ map (\<lambda>smpl. Fprintf (smpl @ '' '' @ smpl @ '' 0'' @ [CHR 0x0A])) (header args1)
                              @ [Fclose]
                              @ [Bgzf_open gen_fname (if is_compressed \<noteq> 0 then ''w'' else ''wu'')]
                    in case gen_lines e args1 ls evs of
                         (evs1, Some err) \<Rightarrow> (evs1, Some err)
                       | (evs1, None) \<Rightarrow>
                           if bgzf_close e evs1 \<noteq> 0 then (evs1, Some Error_closing_gen)
                           else (evs1 @ [Bgzf_close], None))))"

subsection \<open>The tabular reader, as \<^verbatim>\<open>tsv_setter_aa\<close> sees it\<close>

text \<open>
  \<^verbatim>\<open>tsv_t\<close> and \<^verbatim>\<open>tsv_next\<close> belong to tsv2vcf.h, which is not in src/, so the columns of
  a row are a parameter: \<open>cur\<close> is the window \<^verbatim>\<open>(tsv->ss, tsv->se)\<close> (the text at \<^verbatim>\<open>ss\<close> and
  the offset of \<^verbatim>\<open>se\<close>), \<open>rest\<close> are the windows that the following calls of \<^verbatim>\<open>tsv_next\<close>
  deliver, and \<^verbatim>\<open>tsv_next\<close> returns -1 when there is none left.
\<close>

record tsv =
  cur :: "string \<times> nat"
  rest :: "(string \<times> nat) list"

definition tsv_next :: "tsv \<Rightarrow> int \<times> tsv" where
  "tsv_next t =
     (case rest t of
        [] \<Rightarrow> (- 1, t)
      | w # ws \<Rightarrow> (0, t\<lparr>cur := w, rest := ws\<rparr>))"

text \<open>
  The record under construction, \<^verbatim>\<open>bcf1_t *rec\<close>, is an htslib object: the model keeps
  what the setter hands to htslib, the text given to \<^verbatim>\<open>bcf_update_alleles_str\<close> and the
  vector given to \<^verbatim>\<open>bcf_update_genotypes\<close>, next to the field \<^verbatim>\<open>n_sample\<close>.
\<close>

record tsv_rec =
  n_sample :: nat
  alleles_str :: string
  genotypes :: "gt list"

datatype aa_exit = Not_a_SNP | Completed

text \<open>
  The loop over the samples in \<^verbatim>\<open>tsv_setter_aa\<close>, from the index \<open>i\<close> on. The state is
  the reader, \<^verbatim>\<open>args\<close>, the array \<open>alleles\<close> and \<open>nals\<close>. \<^verbatim>\<open>args->gts+i*2\<close> is the pair of
  slots \<open>2 * i\<close> and \<open>2 * i + 1\<close> of the buffer.
\<close>

function aa_samples ::
  "nat \<Rightarrow> nat \<Rightarrow> nat \<Rightarrow> tsv \<times> args_t \<times> int list \<times> int
     \<Rightarrow> error + (aa_exit \<times> tsv \<times> args_t \<times> int list \<times> int)" where
  "aa_samples i n_smpl iref (t, args, alleles, nals) =
     (if i < n_smpl then
        (case (if i > 0 then tsv_next t else (0, t)) of (ret, t1) \<Rightarrow>
           if i > 0 \<and> ret = - 1 then Inl Too_few_columns
           else
             (case tsv_setter_aa1 (args_n args) (fst (cur t1)) (snd (cur t1)) alleles nals iref
                     (gts args ! (2 * i), gts args ! (2 * i + 1)) of
                (ret1, n1, alleles1, nals1, (g0, g1)) \<Rightarrow>
                  if ret1 = - 1 then Inl Expected_two_characters
                  else if ret1 = - 2 then
                    Inr (Not_a_SNP, t1, args\<lparr>args_n := n1\<rparr>, alleles1, nals1)
                  else
                    aa_samples (i + 1) n_smpl iref
                      (t1, args\<lparr>args_n := n1, gts := (gts args)[2 * i := g0, 2 * i + 1 := g1]\<rparr>,
                       alleles1, nals1)))
      else Inr (Completed, t, args, alleles, nals))"
  by pat_completeness auto
termination
  by (relation "measure (\<lambda>(i, n_smpl, iref, st). n_smpl - i)") auto

text \<open>The loop that appends the letters of the assigned slots to \<^verbatim>\<open>args->str\<close>.\<close>

fun put_alleles :: "nat list \<Rightarrow> int list \<Rightarrow> string \<Rightarrow> string" where
  "put_alleles [] alleles s = s"
| "put_alleles (i # is) alleles s =
     put_alleles is alleles
       (if alleles ! i > 0 then s @ [CHR '',''] @ [''ACGTN'' ! i] else s)"

text \<open>
  \<^verbatim>\<open>tsv_setter_aa(tsv, rec, usr)\<close>. \<open>fetched\<close> is what \<^verbatim>\<open>faidx_fetch_seq\<close> returns for the
  position of the record (\<open>None\<close> for NULL) and \<open>upd_ret\<close> is the return value of
  \<^verbatim>\<open>bcf_update_genotypes\<close>: both functions are htslib's. \<^verbatim>\<open>bcf_update_alleles_str\<close> takes
  \<^verbatim>\<open>args->str.s\<close> as a C string: when the reference text is empty, \<^verbatim>\<open>ref[0]\<close> is NUL, the
  buffer starts with it and the string handed over is empty.
\<close>

definition tsv_setter_aa ::
  "string option \<Rightarrow> int \<Rightarrow> tsv \<Rightarrow> tsv_rec \<Rightarrow> args_t
     \<Rightarrow> error + (int \<times> tsv \<times> tsv_rec \<times> args_t)" where
  "tsv_setter_aa fetched upd_ret t rec args =
     (case fetched of
        None \<Rightarrow> Inl Fetch_seq_failed
      | Some ref \<Rightarrow>
          let ref0 = toupper (at ref 0);
              iref = acgt_to_5 ref0;
              alleles = [- 1, - 1, - 1, - 1, - 1][iref := 0];
              rec1 = rec\<lparr>n_sample := length (header args)\<rparr>
          in case aa_samples 0 (n_sample rec1) iref (t, args, alleles, 1) of
               Inl err \<Rightarrow> Inl err
             | Inr (Not_a_SNP, t1, args1, alleles1, nals1) \<Rightarrow> Inr (0, t1, rec1, args1)
             | Inr (Completed, t1, args1, alleles1, nals1) \<Rightarrow>
                 let args2 = args1\<lparr>str := put_alleles [0 ..< 5] alleles1 [ref0]\<rparr>;
                     rec2 = rec1\<lparr>alleles_str := c_str (str args2)\<rparr>
                 in if upd_ret \<noteq> 0 then Inl Could_not_update_GT
                    else Inr (0, t1,
                           rec2\<lparr>genotypes := take (n_sample rec2 * 2) (gts args2)\<rparr>, args2))"

subsection \<open>\<^verbatim>\<open>tsv_to_vcf\<close>\<close>

text \<open>
  One line of the input, with what the collaborators make of it. \<open>line\<close> is its text.
  \<open>coords_ok\<close> tells whether the columns before the calls (ID, CHROM, POS) were set,
  \<open>cols\<close> are the windows of the call columns, \<open>fetch\<close> and \<open>upd\<close> the results of htslib
  for this record (see \<open>tsv_setter_aa\<close>).
\<close>

record row =
  line :: string
  coords_ok :: bool
  cols :: "(string \<times> nat) list"
  fetch :: "string option"
  upd :: int

text \<open>
  Modelled from the spec: \<^verbatim>\<open>tsv_parse\<close> of tsv2vcf.c is not in src/. The spec's tabular
  reader yields one row of named fields at a time, or a parse failure for a malformed
  row; the setter bound to the call column is \<open>tsv_setter_aa\<close> (registered for AA, the
  last of the columns ID, CHROM, POS, AA). A setter reports to the reader through its
  return value only, so the verdict of the reader on that value is the parameter
  \<open>accept\<close>: the result is 0 for an accepted row and -1 for a parse failure.
\<close>

definition tsv_parse ::
  "(int \<Rightarrow> bool) \<Rightarrow> row \<Rightarrow> tsv_rec \<Rightarrow> args_t \<Rightarrow> error + (int \<times> tsv_rec \<times> args_t)" where
  "tsv_parse accept r rec args =
     (case cols r of
        [] \<Rightarrow> Inr (- 1, rec, args)
      | w # ws \<Rightarrow>
          if \<not> coords_ok r then Inr (- 1, rec, args)
          else
            (case tsv_setter_aa (fetch r) (upd r) \<lparr>cur = w, rest = ws\<rparr> rec args of
               Inl err \<Rightarrow> Inl err
             | Inr (ret, t1, rec1, args1) \<Rightarrow>
                 Inr (if accept ret then 0 else - 1, rec1, args1)))"

text \<open>
  The loop over the lines of the input. \<open>out\<close> are the records written with
  \<^verbatim>\<open>bcf_write\<close> so far. \<^verbatim>\<open>hts_getline\<close> returns the length of the line it read, so the
  loop ends at the end of the input and at an empty line alike.
\<close>

fun tsv_rows ::
  "(int \<Rightarrow> bool) \<Rightarrow> row list \<Rightarrow> tsv_rec list \<Rightarrow> tsv_rec \<Rightarrow> args_t
     \<Rightarrow> error + (tsv_rec list \<times> tsv_rec \<times> args_t)" where
  "tsv_rows accept [] out rec args = Inr (out, rec, args)"
| "tsv_rows accept (r # rs) out rec args =
     (if \<not> int (length (line r)) > 0 then Inr (out, rec, args)
      else if at (line r) 0 = CHR ''#'' then tsv_rows accept rs out rec args
      else
        let args1 = args\<lparr>args_n := (args_n args)\<lparr>total := total (args_n args) + 1\<rparr>\<rparr>
        in case tsv_parse accept r rec args1 of
             Inl err \<Rightarrow> Inl err
           | Inr (ret, rec1, args2) \<Rightarrow>
               if ret = 0 then tsv_rows accept rs (out @ [rec1]) rec1 args2
               else tsv_rows accept rs out rec1
                      (args2\<lparr>args_n := (args_n args2)\<lparr>skipped := skipped (args_n args2) + 1\<rparr>\<rparr>))"

definition rec0 :: tsv_rec where
  "rec0 = \<lparr>n_sample = 0, alleles_str = [], genotypes = []\<rparr>"

text \<open>
  \<^verbatim>\<open>tsv_to_vcf(args)\<close>. The header takes the names of the sample list in their order;
  the buffer \<^verbatim>\<open>args->gts\<close> has two slots for each name. \<^verbatim>\<open>args->columns\<close> is never set by
  \<^verbatim>\<open>main_vcfconvert\<close>, so the columns are ID, CHROM, POS, AA and the four registrations
  succeed. The result is the list of the records written and the counters printed at
  the end.
\<close>

definition tsv_to_vcf :: "env \<Rightarrow> args_t \<Rightarrow> row list \<Rightarrow> error + (tsv_rec list \<times> counters)" where
  "tsv_to_vcf e args rows =
     (if ref_fname args = None then Inl Missing_ref_option
      else case sample_list args of
             None \<Rightarrow> Inl Missing_samples_option
           | Some sl \<Rightarrow>
               if \<not> fai_load_ok e then Inl Could_not_load_reference
               else case hts_readlist e sl (sample_is_file args) of
                      None \<Rightarrow> Inl Could_not_parse_samples
                    | Some smpls \<Rightarrow>
                        let args1 = args\<lparr>header := smpls,
                                          gts := replicate (length smpls * 2) Vector_end\<rparr>
                        in if \<not> in_open_ok e then Inl Could_not_read_input
                           else case tsv_rows (accept_ret e) rows [] rec0 args1 of
                                  Inl err \<Rightarrow> Inl err
                                | Inr (out, rec, args2) \<Rightarrow>
                                    if in_close e \<noteq> 0 then Inl Close_failed
                                    else Inr (out, args_n args2))"

subsection \<open>\<^verbatim>\<open>main_vcfconvert\<close>\<close>

text \<open>
  The options as \<^verbatim>\<open>getopt_long\<close> returns them: a character of the option string, or the
  values 1 and 2 of the long options \<^verbatim>\<open>--tag\<close> and \<^verbatim>\<open>--tsv2vcf\<close>, each with \<^verbatim>\<open>optarg\<close>.
\<close>

datatype optc = Short char | Long_tag | Long_tsv2vcf

definition counters0 :: counters where
  "counters0 = \<lparr>total = 0, skipped = 0, hom_rr = 0, het_ra = 0, hom_aa = 0, het_aa = 0\<rparr>"

text \<open>The \<^verbatim>\<open>args\<close> that \<^verbatim>\<open>calloc\<close> and the two assignments before the loop leave.\<close>

definition args0 :: args_t where
  "args0 = \<lparr>filter_t = None, filter_str = None, filter_logic = 0, convert = (\<lambda>l. []),
            header = [], convert_func = None, args_n = counters0, str = [], gts = [],
            sample_is_file = 0, targets_is_file = 0, regions_is_file = 0,
            output_type = FT_VCF, sample_list = None, targets_list = None,
            regions_list = None, tag = None, outfname = ''-'', infname = None,
            ref_fname = None\<rparr>"

text \<open>The body of the \<^verbatim>\<open>switch\<close>.\<close>

definition set_option :: "args_t \<Rightarrow> optc \<times> string \<Rightarrow> error + args_t" where
  "set_option args co =
     (case co of (c, optarg) \<Rightarrow>
        if c = Short CHR ''e''
        then Inr (args\<lparr>filter_str := Some optarg,
                        filter_logic := filter_logic args OR FLT_EXCLUDE\<rparr>)
        else if c = Short CHR ''i''
        then Inr (args\<lparr>filter_str := Some optarg,
                        filter_logic := filter_logic args OR FLT_INCLUDE\<rparr>)
        else if c = Short CHR ''r'' then Inr (args\<lparr>regions_list := Some optarg\<rparr>)
        else if c = Short CHR ''R''
        then Inr (args\<lparr>regions_list := Some optarg, regions_is_file := 1\<rparr>)
        else if c = Short CHR ''t'' then Inr (args\<lparr>targets_list := Some optarg\<rparr>)
        else if c = Short CHR ''T''
        then Inr (args\<lparr>targets_list := Some optarg, targets_is_file := 1\<rparr>)
        else if c = Short CHR ''s'' then Inr (args\<lparr>sample_list := Some optarg\<rparr>)
        else if c = Short CHR ''S''
        then Inr (args\<lparr>sample_list := Some optarg, sample_is_file := 1\<rparr>)
        else if c = Short CHR ''g''
        then Inr (args\<lparr>convert_func := Some Vcf_to_gensample, outfname := optarg\<rparr>)
        else if c = Long_tag then Inr (args\<lparr>tag := Some optarg\<rparr>)
        else if c = Long_tsv2vcf
        then Inr (args\<lparr>convert_func := Some Tsv_to_vcf, infname := Some optarg\<rparr>)
        else if c = Short CHR ''f'' then Inr (args\<lparr>ref_fname := Some optarg\<rparr>)
        else if c = Short CHR ''o'' then Inr (args\<lparr>outfname := optarg\<rparr>)
        else if c = Short CHR ''O'' then
          (if at optarg 0 = CHR ''b'' then Inr (args\<lparr>output_type := FT_BCF_GZ\<rparr>)
           else if at optarg 0 = CHR ''u'' then Inr (args\<lparr>output_type := FT_BCF\<rparr>)
           else if at optarg 0 = CHR ''z'' then Inr (args\<lparr>output_type := FT_VCF_GZ\<rparr>)
           else if at optarg 0 = CHR ''v'' then Inr (args\<lparr>output_type := FT_VCF\<rparr>)
           else Inl (Output_type_not_recognised optarg))
        else if c = Short CHR ''h'' \<or> c = Short CHR ''?'' then Inl Usage
        else Inl Unknown_argument)"

text \<open>The \<^verbatim>\<open>while\<close> loop over the options.\<close>

fun set_options :: "args_t \<Rightarrow> (optc \<times> string) list \<Rightarrow> error + args_t" where
  "set_options args [] = Inr args"
| "set_options args (co # cos) =
     (case set_option args co of
        Inl err \<Rightarrow> Inl err
      | Inr args1 \<Rightarrow> set_options args1 cos)"

datatype run_output = Gensample "event list \<times> error option" | Vcf "tsv_rec list \<times> counters"

text \<open>
  \<^verbatim>\<open>main_vcfconvert\<close>. \<open>opts\<close> are the options, \<open>operands\<close> the arguments from
  \<^verbatim>\<open>argv[optind]\<close> on, \<open>tty\<close> the value of \<^verbatim>\<open>isatty\<close> on the standard input; \<open>ls\<close> and
  \<open>rows\<close> are the content of the input for the two directions.
\<close>

definition main_vcfconvert ::
  "env \<Rightarrow> (optc \<times> string) list \<Rightarrow> string list \<Rightarrow> bool \<Rightarrow> bcf1 list \<Rightarrow> row list
     \<Rightarrow> error + run_output" where
  "main_vcfconvert e opts operands tty ls rows =
     (case set_options args0 opts of
        Inl err \<Rightarrow> Inl err
      | Inr args \<Rightarrow>
          let args1 = (case operands of
                         [] \<Rightarrow> if \<not> tty then args\<lparr>infname := Some ''-''\<rparr> else args
                       | a # as \<Rightarrow> args\<lparr>infname := Some a\<rparr>)
          in if infname args1 = None \<or> convert_func args1 = None then Inl Usage
             else
               (case convert_func args1 of
                  Some Vcf_to_gensample \<Rightarrow>
                    (case vcf_to_gensample e args1 ls of
                       (evs, Some err) \<Rightarrow> Inl err
                     | (evs, None) \<Rightarrow> Inr (Gensample (evs, None)))
                | Some Tsv_to_vcf \<Rightarrow>
                    (case tsv_to_vcf e args1 rows of
                       Inl err \<Rightarrow> Inl err
                     | Inr res \<Rightarrow> Inr (Vcf res))
                | None \<Rightarrow> Inl Usage))"

section \<open>Definitions for the statements\<close>

text \<open>The two codes that \<^verbatim>\<open>tsv_setter_aa1\<close> computes from the text at \<^verbatim>\<open>ss\<close>: \<^verbatim>\<open>a0\<close> and \<^verbatim>\<open>a1\<close>.\<close>

definition code0 :: "string \<Rightarrow> nat" where
  "code0 ss = acgt_to_5 (toupper (at ss 0))"

definition code1 :: "string \<Rightarrow> nat" where
  "code1 ss = (if at ss 1 \<noteq> NUL then acgt_to_5 (toupper (at ss 1)) else code0 ss)"

text \<open>\<^verbatim>\<open>if ( alleles[a]<0 ) alleles[a] = (*nals)++\<close> on the pair of the array and \<open>nals\<close>.\<close>

definition set_slot :: "int list \<times> int \<Rightarrow> nat \<Rightarrow> int list \<times> int" where
  "set_slot tn a = (if fst tn ! a < 0 then ((fst tn)[a := snd tn], snd tn + 1) else tn)"

text \<open>A gap, insertion or deletion marker at the start of a token.\<close>

definition marker :: "char \<Rightarrow> bool" where
  "marker ch \<longleftrightarrow> ch = CHR ''-'' \<or> ch = CHR ''I'' \<or> ch = CHR ''D''"

text \<open>A window whose call \<^verbatim>\<open>tsv_setter_aa1\<close> decodes: at most two characters, no marker.\<close>

definition usable :: "string \<times> nat \<Rightarrow> bool" where
  "usable w \<longleftrightarrow> \<not> 2 < snd w \<and> \<not> marker (at (fst w) 0)"

text \<open>
  The token of a window, and the windows whose token is all that the decoder reads: a
  token of two characters, or a token of one character that ends the line. (After a
  token of one character that a separator follows, \<^verbatim>\<open>ss[1]\<close> is the separator.)
\<close>

definition token :: "string \<times> nat \<Rightarrow> string" where
  "token w = take (snd w) (fst w)"

definition whole :: "string \<times> nat \<Rightarrow> bool" where
  "whole w \<longleftrightarrow>
     NUL \<notin> set (fst w) \<and>
     (snd w = 1 \<and> length (fst w) = 1 \<or> snd w = 2 \<and> 2 \<le> length (fst w))"

text \<open>The codes of the bases observed at a site: those of the characters of its tokens.\<close>

definition observed :: "(string \<times> nat) list \<Rightarrow> nat set" where
  "observed ws = (\<Union>w \<in> set ws. (\<lambda>ch. acgt_to_5 (toupper ch)) ` set (token w))"

text \<open>The codes that the decoder reads in a list of windows.\<close>

definition read_codes :: "(string \<times> nat) list \<Rightarrow> nat set" where
  "read_codes ws = (\<Union>w \<in> set ws. {code0 (fst w), code1 (fst w)})"

text \<open>
  The four genotype classes in the words of the specification: both codes equal the
  reference; exactly one does; both are equal and not the reference; they differ from
  each other and from the reference.
\<close>

datatype gclass = Hom_ref | Het_ref_alt | Hom_alt | Het_non_ref

definition genotype_class :: "nat \<Rightarrow> nat \<Rightarrow> nat \<Rightarrow> gclass" where
  "genotype_class ref a0 a1 =
     (if a0 = ref \<and> a1 = ref then Hom_ref
      else if (a0 = ref) \<noteq> (a1 = ref) then Het_ref_alt
      else if a0 = a1 \<and> a0 \<noteq> ref then Hom_alt
      else Het_non_ref)"

fun tally :: "gclass \<Rightarrow> counters \<Rightarrow> counters" where
  "tally Hom_ref c = c\<lparr>hom_rr := hom_rr c + 1\<rparr>"
| "tally Het_ref_alt c = c\<lparr>het_ra := het_ra c + 1\<rparr>"
| "tally Hom_alt c = c\<lparr>hom_aa := hom_aa c + 1\<rparr>"
| "tally Het_non_ref c = c\<lparr>het_aa := het_aa c + 1\<rparr>"

text \<open>What the decoding of one window does to the pair of the array and \<open>nals\<close>.\<close>

definition slot2 :: "int list \<times> int \<Rightarrow> string \<times> nat \<Rightarrow> int list \<times> int" where
  "slot2 tn w = set_slot (set_slot tn (code0 (fst w))) (code1 (fst w))"

text \<open>The windows still to be decoded when the loop is at the index \<open>i\<close>.\<close>

definition pending :: "nat \<Rightarrow> tsv \<Rightarrow> (string \<times> nat) list" where
  "pending i t = (if i > 0 then rest t else cur t # rest t)"

text \<open>The reader after the round \<open>i\<close> has taken the window \<open>w\<close> and left \<open>ws\<close>.\<close>

definition advance :: "nat \<Rightarrow> tsv \<Rightarrow> (string \<times> nat) \<Rightarrow> (string \<times> nat) list \<Rightarrow> tsv" where
  "advance i t w ws = (if i > 0 then t\<lparr>cur := w, rest := ws\<rparr> else t)"

text \<open>\<^verbatim>\<open>args\<close> after the round \<open>i\<close> has decoded the window \<open>w\<close>.\<close>

definition decoded_args :: "nat \<Rightarrow> nat \<Rightarrow> string \<times> nat \<Rightarrow> int list \<times> int \<Rightarrow> args_t \<Rightarrow> args_t" where
  "decoded_args i iref w tn args =
     (case tsv_setter_aa1 (args_n args) (fst w) (snd w) (fst tn) (snd tn) iref
             (gts args ! (2 * i), gts args ! (2 * i + 1)) of
        (ret1, n1, alleles1, nals1, (g0, g1)) \<Rightarrow>
          args\<lparr>args_n := n1, gts := (gts args)[2 * i := g0, 2 * i + 1 := g1]\<rparr>)"

text \<open>
  The invariant of the array: it has five slots; the slot of the reference, and only this
  one, holds 0; a slot is assigned exactly when its code is the reference or one of the
  codes \<open>S\<close> observed so far.
\<close>

definition tab_inv :: "nat \<Rightarrow> nat set \<Rightarrow> int list \<times> int \<Rightarrow> bool" where
  "tab_inv iref S tn \<longleftrightarrow>
     length (fst tn) = 5 \<and> 1 \<le> snd tn \<and>
     (\<forall>j < 5. (fst tn ! j = 0 \<longleftrightarrow> j = iref) \<and> (0 \<le> fst tn ! j \<longleftrightarrow> j = iref \<or> j \<in> S))"

text \<open>The record that a call of \<open>tsv_setter_aa\<close> leaves, if the run goes on.\<close>

definition written :: "error + (int \<times> tsv \<times> tsv_rec \<times> args_t) \<Rightarrow> tsv_rec option" where
  "written r = (case r of Inl err \<Rightarrow> None | Inr (ret, t, rec, args) \<Rightarrow> Some rec)"

text \<open>\<^verbatim>\<open>args\<close> as \<open>tsv_to_vcf\<close> sets it up for the sample names \<open>smpls\<close>.\<close>

definition args_smpl :: "string list \<Rightarrow> args_t" where
  "args_smpl smpls = args0\<lparr>header := smpls, gts := replicate (length smpls * 2) Vector_end\<rparr>"

text \<open>An input line at a position where the reference has the base C.\<close>

definition ex_row :: "string \<Rightarrow> (string \<times> nat) list \<Rightarrow> row" where
  "ex_row ln cs = \<lparr>line = ln, coords_ok = True, cols = cs, fetch = Some ''C'', upd = 0\<rparr>"

text \<open>
  The events of a complete sample file (lines 167 to 172): the file is opened, the two
  header lines and one line for each sample of the header are written, the file is closed.
\<close>

definition sample_stream :: "string \<Rightarrow> string list \<Rightarrow> event list" where
  "sample_stream fname hdr =
     [Fopen fname, Fprintf (''ID_1 ID_2 missing'' @ [CHR 0x0A] @ ''0 0 0'' @ [CHR 0x0A])]
       @ map (\<lambda>smpl. Fprintf (smpl @ '' '' @ smpl @ '' 0'' @ [CHR 0x0A])) hdr
       @ [Fclose]"

text \<open>
  The format that \<open>vcf_to_gensample\<close> makes for the tags it knows (lines 136 to 140), and
  the tags it knows.
\<close>

definition gen_format :: "args_t \<Rightarrow> string" where
  "gen_format args =
     format_prefix @ (if tag args = Some ''PL'' then ''%_PL_TO_PROB3'' else ''%_GT_TO_PROB3'')
       @ [CHR 0x0A]"

definition tag_ok :: "args_t \<Rightarrow> bool" where
  "tag_ok args \<longleftrightarrow> tag args = None \<or> tag args = Some ''GT'' \<or> tag args = Some ''PL''"

text \<open>An event of the genotype stream after its opening.\<close>

definition gen_event :: "event \<Rightarrow> bool" where
  "gen_event ev = (case ev of Bgzf_write s \<Rightarrow> True | Bgzf_close \<Rightarrow> True | _ \<Rightarrow> False)"

text \<open>An option that sets the filter expression: \<^verbatim>\<open>-e\<close> or \<^verbatim>\<open>-i\<close>.\<close>

definition filter_opt :: "optc \<times> string \<Rightarrow> bool" where
  "filter_opt co \<longleftrightarrow> fst co = Short CHR ''e'' \<or> fst co = Short CHR ''i''"

text \<open>The header of the run after \<open>open_vcf\<close>, if it returns.\<close>

definition opened_header :: "error + args_t \<Rightarrow> string list option" where
  "opened_header r = (case r of Inl err \<Rightarrow> None | Inr args \<Rightarrow> Some (header args))"

subsection \<open>An environment and inputs for the examples\<close>

text \<open>
  A source with the samples NA1, NA2 and NA3; sample lists are split at commas and the
  header is restricted to the names of the list; the filter holds for positions above
  150 and the converter prints the contig and the identifier; every write succeeds.
\<close>

fun split_commas :: "string \<Rightarrow> string list" where
  "split_commas [] = [[]]"
| "split_commas (c # cs) =
     (if c = CHR '','' then [] # split_commas cs
      else (case split_commas cs of w # ws \<Rightarrow> (c # w) # ws | [] \<Rightarrow> [[c]]))"

definition ex_env :: env where
  "ex_env =
     \<lparr>set_regions = 0, set_targets = 0, add_reader = True,
       reader_header = [''NA1'', ''NA2'', ''NA3''],
       set_samples = (\<lambda>hdr sl is_file. (0, filter (\<lambda>nm. nm \<in> set (split_commas sl)) hdr)),
       hts_readlist = (\<lambda>sl is_file. Some (split_commas sl)),
       hdr_id2int = (\<lambda>hdr nm. int (length (takeWhile (\<lambda>x. x \<noteq> nm) hdr))),
       filter_init = (\<lambda>hdr fs l. if 150 < pos l then 1 else 0),
       convert_init = (\<lambda>hdr smp fmt l. chrom l @ '':'' @ site_id l @ [CHR 0x0A]),
       fopen_ok = True, bgzf_write = (\<lambda>evs d. int (length d)), bgzf_close = (\<lambda>evs. 0),
       fai_load_ok = True, in_open_ok = True, in_close = 0,
       accept_ret = (\<lambda>ret. 0 \<le> ret)\<rparr>"

definition ex_site :: "string \<Rightarrow> int \<Rightarrow> string list \<Rightarrow> bcf1" where
  "ex_site nm p alts =
     \<lparr>chrom = ''1'', pos = p, site_id = nm, ref_allele = ''C'', alt_alleles = alts, calls = []\<rparr>"

definition ex_args :: args_t where
  "ex_args = args0\<lparr>convert_func := Some Vcf_to_gensample, outfname := ''out'',
                   infname := Some ''in.vcf''\<rparr>"

section \<open>Lemmas about the decoder and the loop over the samples\<close>

declare aa_samples.simps [simp del]

lemma aa1_long: "2 < se \<Longrightarrow> tsv_setter_aa1 c ss se alleles nals ref g = (- 1, c, alleles, nals, g)"
  by (simp add: tsv_setter_aa1_def)

lemma aa1_marker:
  "\<not> 2 < se \<Longrightarrow> marker (at ss 0) \<Longrightarrow>
     tsv_setter_aa1 c ss se alleles nals ref g = (- 2, c, alleles, nals, g)"
  by (auto simp add: tsv_setter_aa1_def marker_def)

lemma aa1_decoded:
  "\<not> 2 < se \<Longrightarrow> \<not> marker (at ss 0) \<Longrightarrow>
     tsv_setter_aa1 c ss se alleles nals ref g =
       (0,
        (if ref = code0 ss \<and> ref = code1 ss then c\<lparr>hom_rr := hom_rr c + 1\<rparr>
         else if ref = code0 ss then c\<lparr>het_ra := het_ra c + 1\<rparr>
         else if ref = code1 ss then c\<lparr>het_ra := het_ra c + 1\<rparr>
         else if code0 ss = code1 ss then c\<lparr>hom_aa := hom_aa c + 1\<rparr>
         else c\<lparr>het_aa := het_aa c + 1\<rparr>),
        fst (set_slot (set_slot (alleles, nals) (code0 ss)) (code1 ss)),
        snd (set_slot (set_slot (alleles, nals) (code0 ss)) (code1 ss)),
        (Unphased (fst (set_slot (set_slot (alleles, nals) (code0 ss)) (code1 ss)) ! code0 ss),
         if at ss 1 \<noteq> NUL
         then Unphased (fst (set_slot (set_slot (alleles, nals) (code0 ss)) (code1 ss)) ! code1 ss)
         else Vector_end))"
  unfolding tsv_setter_aa1_def marker_def code0_def code1_def set_slot_def Let_def
  by (simp add: split_def)

lemma genotype_class_iff:
  "(genotype_class ref a0 a1 = Hom_ref \<longleftrightarrow> a0 = ref \<and> a1 = ref) \<and>
   (genotype_class ref a0 a1 = Het_ref_alt \<longleftrightarrow> (a0 = ref) \<noteq> (a1 = ref)) \<and>
   (genotype_class ref a0 a1 = Hom_alt \<longleftrightarrow> a0 = a1 \<and> a0 \<noteq> ref) \<and>
   (genotype_class ref a0 a1 = Het_non_ref \<longleftrightarrow> a0 \<noteq> a1 \<and> a0 \<noteq> ref \<and> a1 \<noteq> ref)"
  by (auto simp add: genotype_class_def)

lemma aa1_tally:
  assumes "\<not> 2 < se" "\<not> marker (at ss 0)"
  shows "fst (snd (tsv_setter_aa1 c ss se alleles nals ref g)) =
           tally (genotype_class ref (code0 ss) (code1 ss)) c"
  unfolding aa1_decoded [OF assms] by (auto simp add: genotype_class_def)

lemma tally_keeps: "skipped (tally k c) = skipped c" "total (tally k c) = total c"
  by (cases k; simp)+

text \<open>One round of the loop, for each of the three outcomes of the call.\<close>

lemma round_long:
  assumes "i < n_smpl" "pending i t = w # ws" "2 < snd w"
  shows "aa_samples i n_smpl iref (t, args, alleles, nals) = Inl Expected_two_characters"
  using assms
  by (subst aa_samples.simps)
     (auto simp add: pending_def tsv_next_def aa1_long split: if_splits)

lemma round_marker:
  assumes "i < n_smpl" "pending i t = w # ws" "\<not> 2 < snd w" "marker (at (fst w) 0)"
  shows "aa_samples i n_smpl iref (t, args, alleles, nals) =
           Inr (Not_a_SNP, advance i t w ws, args\<lparr>args_n := args_n args\<rparr>, alleles, nals)"
  using assms
  by (subst aa_samples.simps)
     (auto simp add: pending_def advance_def tsv_next_def aa1_marker split: if_splits)

lemma round_decoded:
  assumes "i < n_smpl" "pending i t = w # ws" "usable w"
  shows "aa_samples i n_smpl iref (t, args, alleles, nals) =
           aa_samples (i + 1) n_smpl iref
             (advance i t w ws, decoded_args i iref w (alleles, nals) args,
              slot2 (alleles, nals) w)"
proof -
  from assms(3) have u: "\<not> 2 < snd w" "\<not> marker (at (fst w) 0)"
    by (simp_all add: usable_def)
  show ?thesis
  proof (cases "i > 0")
    case True
    with assms(2) have "tsv_next t = (0, t\<lparr>cur := w, rest := ws\<rparr>)"
      by (simp add: pending_def tsv_next_def)
    with True assms(1) show ?thesis
      by (subst aa_samples.simps)
         (simp add: advance_def decoded_args_def aa1_decoded [OF u] slot2_def)
  next
    case False
    with assms(2) have "cur t = w"
      by (simp add: pending_def)
    with False assms(1) show ?thesis
      by (subst aa_samples.simps)
         (simp add: advance_def decoded_args_def aa1_decoded [OF u] slot2_def)
  qed
qed

lemma pending_advance: "pending i t = w # ws \<Longrightarrow> pending (Suc i) (advance i t w ws) = ws"
  by (auto simp add: pending_def advance_def)

lemma decoded_args_keeps:
  assumes "usable w"
  shows "skipped (args_n (decoded_args i iref w tn args)) = skipped (args_n args)"
    and "total (args_n (decoded_args i iref w tn args)) = total (args_n args)"
    and "header (decoded_args i iref w tn args) = header args"
proof -
  from assms have u: "\<not> 2 < snd w" "\<not> marker (at (fst w) 0)"
    by (simp_all add: usable_def)
  show "skipped (args_n (decoded_args i iref w tn args)) = skipped (args_n args)"
    and "total (args_n (decoded_args i iref w tn args)) = total (args_n args)"
    and "header (decoded_args i iref w tn args) = header args"
    unfolding decoded_args_def aa1_decoded [OF u] by simp_all
qed

lemma loop_long:
  assumes "pending i t = pre @ w # post" "\<forall>v \<in> set pre. usable v" "2 < snd w"
    "i + length pre < n_smpl"
  shows "aa_samples i n_smpl iref (t, args, tn) = Inl Expected_two_characters"
  using assms
proof (induction pre arbitrary: i t args tn)
  case Nil
  then show ?case by (cases tn) (simp add: round_long)
next
  case (Cons v pre)
  from Cons.prems have p: "pending i t = v # (pre @ w # post)" and u: "usable v" and i: "i < n_smpl"
    by simp_all
  have "pending (Suc i) (advance i t v (pre @ w # post)) = pre @ w # post"
    by (rule pending_advance [OF p])
  with Cons.prems show ?case
    by (cases tn) (simp add: round_decoded [OF i p u] Cons.IH)
qed

lemma loop_marker:
  assumes "pending i t = pre @ w # post" "\<forall>v \<in> set pre. usable v" "\<not> 2 < snd w"
    "marker (at (fst w) 0)" "i + length pre < n_smpl"
  shows "\<exists>t' args' tn'.
           aa_samples i n_smpl iref (t, args, tn) = Inr (Not_a_SNP, t', args', tn') \<and>
           skipped (args_n args') = skipped (args_n args) \<and>
           total (args_n args') = total (args_n args) \<and>
           header args' = header args"
  using assms
proof (induction pre arbitrary: i t args tn)
  case Nil
  then show ?case by (cases tn) (simp add: round_marker)
next
  case (Cons v pre)
  from Cons.prems have p: "pending i t = v # (pre @ w # post)" and u: "usable v" and i: "i < n_smpl"
    by simp_all
  obtain alleles nals where tn: "tn = (alleles, nals)"
    by (cases tn)
  let ?t1 = "advance i t v (pre @ w # post)"
  let ?args1 = "decoded_args i iref v (alleles, nals) args"
  have "pending (Suc i) ?t1 = pre @ w # post"
    by (rule pending_advance [OF p])
  with Cons.prems have
    "\<exists>t' args' tn'.
       aa_samples (Suc i) n_smpl iref (?t1, ?args1, slot2 (alleles, nals) v)
         = Inr (Not_a_SNP, t', args', tn') \<and>
       skipped (args_n args') = skipped (args_n ?args1) \<and>
       total (args_n args') = total (args_n ?args1) \<and>
       header args' = header ?args1"
    by (intro Cons.IH) simp_all
  then show ?case
    unfolding tn round_decoded [OF i p u] decoded_args_keeps [OF u] by simp
qed

lemma loop_completed:
  assumes "pending i t = ws @ post" "\<forall>v \<in> set ws. usable v" "i + length ws = n_smpl"
  shows "\<exists>t' args'.
           aa_samples i n_smpl iref (t, args, tn) = Inr (Completed, t', args', foldl slot2 tn ws) \<and>
           skipped (args_n args') = skipped (args_n args) \<and>
           total (args_n args') = total (args_n args) \<and>
           header args' = header args"
  using assms
proof (induction ws arbitrary: i t args tn)
  case Nil
  then show ?case by (cases tn) (simp add: aa_samples.simps)
next
  case (Cons v ws)
  from Cons.prems have p: "pending i t = v # (ws @ post)" and u: "usable v" and i: "i < n_smpl"
    by simp_all
  obtain alleles nals where tn: "tn = (alleles, nals)"
    by (cases tn)
  let ?t1 = "advance i t v (ws @ post)"
  let ?args1 = "decoded_args i iref v (alleles, nals) args"
  have "pending (Suc i) ?t1 = ws @ post"
    by (rule pending_advance [OF p])
  with Cons.prems have
    "\<exists>t' args'.
       aa_samples (Suc i) n_smpl iref (?t1, ?args1, slot2 (alleles, nals) v)
         = Inr (Completed, t', args', foldl slot2 (slot2 (alleles, nals) v) ws) \<and>
       skipped (args_n args') = skipped (args_n ?args1) \<and>
       total (args_n args') = total (args_n ?args1) \<and>
       header args' = header ?args1"
    by (intro Cons.IH) simp_all
  then show ?case
    unfolding tn round_decoded [OF i p u] decoded_args_keeps [OF u] by simp
qed

lemma acgt_to_5_less: "acgt_to_5 ch < 5"
  by (simp add: acgt_to_5_def)

lemma code_less: "code0 ss < 5" "code1 ss < 5"
  by (simp_all add: code0_def code1_def acgt_to_5_less)

lemma tab_inv_init: "iref < 5 \<Longrightarrow> tab_inv iref {} ([- 1, - 1, - 1, - 1, - 1][iref := 0], 1)"
  by (auto simp add: tab_inv_def nth_list_update less_Suc_eq numeral_eq_Suc nth_Cons')

lemma tab_inv_set_slot:
  assumes "tab_inv iref S tn" "a < 5"
  shows "tab_inv iref (insert a S) (set_slot tn a)"
proof (cases "fst tn ! a < 0")
  case True
  with assms have "a \<noteq> iref"
    by (auto simp add: tab_inv_def)
  with assms True show ?thesis
    by (auto simp add: tab_inv_def set_slot_def nth_list_update)
next
  case False
  with assms show ?thesis
    by (auto simp add: tab_inv_def set_slot_def)
qed

lemma tab_inv_slot2:
  assumes "tab_inv iref S tn"
  shows "tab_inv iref (S \<union> {code0 (fst w), code1 (fst w)}) (slot2 tn w)"
proof -
  have "tab_inv iref (insert (code1 (fst w)) (insert (code0 (fst w)) S)) (slot2 tn w)"
    unfolding slot2_def by (intro tab_inv_set_slot assms code_less)
  then show ?thesis by (simp add: insert_commute)
qed

lemma tab_inv_foldl:
  "tab_inv iref S tn \<Longrightarrow> tab_inv iref (S \<union> read_codes ws) (foldl slot2 tn ws)"
proof (induction ws arbitrary: S tn)
  case Nil
  then show ?case by (simp add: read_codes_def)
next
  case (Cons w ws)
  from tab_inv_slot2 [OF Cons.prems]
  have "tab_inv iref (S \<union> {code0 (fst w), code1 (fst w)} \<union> read_codes ws) (foldl slot2 (slot2 tn w) ws)"
    by (rule Cons.IH)
  moreover have "S \<union> {code0 (fst w), code1 (fst w)} \<union> read_codes ws = S \<union> read_codes (w # ws)"
    by (auto simp add: read_codes_def)
  ultimately show ?case by simp
qed

lemma read_codes_less: "j \<in> read_codes ws \<Longrightarrow> j < 5"
  by (auto simp add: read_codes_def code_less)

lemma put_alleles_concat:
  "put_alleles js alleles s =
     s @ concat (map (\<lambda>ch. [CHR '','', ch])
                  (map (\<lambda>j. ''ACGTN'' ! j) (filter (\<lambda>j. alleles ! j > 0) js)))"
  by (induction js arbitrary: s) simp_all

lemma letters_inj: "inj_on (\<lambda>j. ''ACGTN'' ! j) {..< 5}"
proof (rule inj_onI)
  fix i j :: nat
  assume "i \<in> {..< 5}" "j \<in> {..< 5}" "''ACGTN'' ! i = ''ACGTN'' ! j"
  moreover have "distinct ''ACGTN''" by simp
  ultimately show "i = j"
    by (simp add: nth_eq_iff_index_eq)
qed

lemma assigned_letters:
  fixes ws :: "(string \<times> nat) list"
  assumes "tab_inv iref {} tn0"
  shows "distinct (map (\<lambda>j. ''ACGTN'' ! j) (filter (\<lambda>j. fst (foldl slot2 tn0 ws) ! j > 0) [0 ..< 5]))"
    and "set (map (\<lambda>j. ''ACGTN'' ! j) (filter (\<lambda>j. fst (foldl slot2 tn0 ws) ! j > 0) [0 ..< 5]))
           = (\<lambda>j. ''ACGTN'' ! j) ` (read_codes ws - {iref})"
proof -
  show "distinct (map (\<lambda>j. ''ACGTN'' ! j) (filter (\<lambda>j. fst (foldl slot2 tn0 ws) ! j > 0) [0 ..< 5]))"
    by (rule distinct_map [THEN iffD2], rule conjI, simp)
       (rule inj_on_subset [OF letters_inj], auto)
  from tab_inv_foldl [OF assms(1), of ws]
  have inv: "tab_inv iref (read_codes ws) (foldl slot2 tn0 ws)" by simp
  have "{j \<in> set [0 ..< 5]. fst (foldl slot2 tn0 ws) ! j > 0} = read_codes ws - {iref}"
  proof (intro set_eqI iffI)
    fix j assume "j \<in> {j \<in> set [0 ..< 5]. fst (foldl slot2 tn0 ws) ! j > 0}"
    then have "j < 5" "fst (foldl slot2 tn0 ws) ! j > 0" by simp_all
    with inv show "j \<in> read_codes ws - {iref}"
      by (auto simp add: tab_inv_def)
  next
    fix j assume j: "j \<in> read_codes ws - {iref}"
    then have "j < 5" by (auto intro: read_codes_less)
    with inv j have "0 \<le> fst (foldl slot2 tn0 ws) ! j" "fst (foldl slot2 tn0 ws) ! j \<noteq> 0"
      by (auto simp add: tab_inv_def)
    with \<open>j < 5\<close> show "j \<in> {j \<in> set [0 ..< 5]. fst (foldl slot2 tn0 ws) ! j > 0}"
      by simp
  qed
  then show "set (map (\<lambda>j. ''ACGTN'' ! j) (filter (\<lambda>j. fst (foldl slot2 tn0 ws) ! j > 0) [0 ..< 5]))
           = (\<lambda>j. ''ACGTN'' ! j) ` (read_codes ws - {iref})"
    by simp
qed

lemma toupper_A [simp]: "toupper CHR ''A'' = CHR ''A''" "toupper CHR ''C'' = CHR ''C''"
  "toupper CHR ''G'' = CHR ''G''" "toupper CHR ''T'' = CHR ''T''" "toupper CHR ''N'' = CHR ''N''"
  "toupper CHR ''c'' = CHR ''C''"
  by (simp_all add: toupper_def char_of_eq_iff)

lemma setter_long:
  assumes "cur t # rest t = pre @ w # post" "\<forall>v \<in> set pre. usable v" "2 < snd w"
    "length pre < length (header args)"
  shows "tsv_setter_aa (Some ref) upd_ret t rec args = Inl Expected_two_characters"
proof -
  from assms(1) have "pending 0 t = pre @ w # post"
    by (simp add: pending_def)
  from loop_long [OF this assms(2,3)] assms(4) show ?thesis
    by (simp add: tsv_setter_aa_def Let_def)
qed

lemma setter_marker:
  assumes "cur t # rest t = pre @ w # post" "\<forall>v \<in> set pre. usable v" "\<not> 2 < snd w"
    "marker (at (fst w) 0)" "length pre < length (header args)"
  shows "\<exists>t' args'.
           tsv_setter_aa (Some ref) upd_ret t rec args
             = Inr (0, t', rec\<lparr>n_sample := length (header args)\<rparr>, args') \<and>
           skipped (args_n args') = skipped (args_n args) \<and>
           total (args_n args') = total (args_n args)"
proof -
  let ?iref = "acgt_to_5 (toupper (at ref 0))"
  let ?init = "([- 1, - 1, - 1, - 1, - 1][?iref := 0], 1 :: int)"
  from assms(1) have "pending 0 t = pre @ w # post"
    by (simp add: pending_def)
  from loop_marker [OF this assms(2,3,4), of "length (header args)" ?iref args ?init] assms(5)
  obtain t' args' tn' where
    run: "aa_samples 0 (length (header args)) ?iref (t, args, ?init) = Inr (Not_a_SNP, t', args', tn')"
    and keep: "skipped (args_n args') = skipped (args_n args)"
      "total (args_n args') = total (args_n args)"
    by auto
  obtain al nl where "tn' = (al, nl)" by (cases tn')
  with run have "tsv_setter_aa (Some ref) upd_ret t rec args
             = Inr (0, t', rec\<lparr>n_sample := length (header args)\<rparr>, args')"
    by (simp add: tsv_setter_aa_def Let_def)
  with keep show ?thesis by blast
qed

lemma ex_row_simps [simp]:
  "line (ex_row ln cs) = ln" "coords_ok (ex_row ln cs)" "cols (ex_row ln cs) = cs"
  "fetch (ex_row ln cs) = Some ''C''" "upd (ex_row ln cs) = 0"
  by (simp_all add: ex_row_def)

lemma args_smpl_header [simp]: "header (args_smpl smpls) = smpls"
  by (simp add: args_smpl_def)

lemma of_char_toupper:
  "of_char (toupper c) =
     (if (97::nat) \<le> of_char c \<and> of_char c \<le> (122::nat) then of_char c - 32 else (of_char c :: nat))"
  by (auto simp add: toupper_def less_eq_char_def)

lemma toupper_NUL: "toupper c = NUL \<longleftrightarrow> c = NUL"
proof -
  have "toupper c = NUL \<longleftrightarrow> (of_char (toupper c) :: nat) = of_char NUL"
    by (simp only: of_char_eq_iff)
  also have "\<dots> \<longleftrightarrow> (of_char c :: nat) = of_char NUL"
    unfolding of_char_toupper by (auto simp add: NUL_def)
  also have "\<dots> \<longleftrightarrow> c = NUL"
    by (simp only: of_char_eq_iff)
  finally show ?thesis .
qed

lemma whole_codes:
  assumes "whole w"
  shows "{code0 (fst w), code1 (fst w)} = (\<lambda>ch. acgt_to_5 (toupper ch)) ` set (token w)"
proof -
  obtain ss se where w: "w = (ss, se)" by (cases w)
  from assms w consider c where "ss = [c]" "se = 1"
    | c0 c1 zs where "ss = c0 # c1 # zs" "se = 2" "c1 \<noteq> NUL"
  proof -
    assume r1: "\<And>c. ss = [c] \<Longrightarrow> se = 1 \<Longrightarrow> thesis"
      and r2: "\<And>c0 c1 zs. ss = c0 # c1 # zs \<Longrightarrow> se = 2 \<Longrightarrow> c1 \<noteq> NUL \<Longrightarrow> thesis"
    from assms w have n: "NUL \<notin> set ss"
      and d: "se = 1 \<and> length ss = 1 \<or> se = 2 \<and> 2 \<le> length ss"
      by (simp_all add: whole_def)
    from d show thesis
    proof
      assume "se = 1 \<and> length ss = 1"
      then show thesis by (cases ss) (auto intro: r1)
    next
      assume a: "se = 2 \<and> 2 \<le> length ss"
      then obtain c0 c1 zs where "ss = c0 # c1 # zs"
        by (cases ss; cases "tl ss") auto
      with a n show thesis by (auto intro: r2)
    qed
  qed
  then show ?thesis
  proof cases
    case 1
    then show ?thesis by (simp add: w code0_def code1_def token_def at_def)
  next
    case 2
    then show ?thesis by (auto simp add: w code0_def code1_def token_def at_def)
  qed
qed

lemma whole_read_codes: "\<forall>w \<in> set ws. whole w \<Longrightarrow> read_codes ws = observed ws"
  by (simp add: read_codes_def observed_def whole_codes)

lemma c_str_alleles:
  assumes "set alts \<subseteq> set ''ACGTN''"
  shows "c_str (r # concat (map (\<lambda>ch. [CHR '','', ch]) alts)) =
           (if r = NUL then [] else r # concat (map (\<lambda>ch. [CHR '','', ch]) alts))"
proof -
  have "\<forall>ch \<in> set (concat (map (\<lambda>ch. [CHR '','', ch]) alts)). ch \<noteq> NUL"
    using assms by (auto simp add: NUL_def)
  then have "takeWhile (\<lambda>ch. ch \<noteq> NUL) (concat (map (\<lambda>ch. [CHR '','', ch]) alts))
      = concat (map (\<lambda>ch. [CHR '','', ch]) alts)"
    by (simp only: takeWhile_eq_all_conv)
  then show ?thesis by (simp add: c_str_def)
qed

section \<open>Lemmas about the variant-to-tabular direction and the options\<close>

lemma ex_site_simps [simp]: "pos (ex_site nm p alts) = p" "alt_alleles (ex_site nm p alts) = alts"
  "chrom (ex_site nm p alts) = ''1''" "site_id (ex_site nm p alts) = nm"
  by (simp_all add: ex_site_def)

lemma tolower_examples [simp]:
  "tolower CHR ''G'' = CHR ''g''" "tolower CHR ''Z'' = CHR ''z''" "tolower CHR ''.'' = CHR ''.''"
  "tolower CHR ''a'' = CHR ''a''" "tolower CHR ''g'' = CHR ''g''" "tolower CHR ''e'' = CHR ''e''"
  "tolower CHR ''n'' = CHR ''n''" "tolower CHR ''z'' = CHR ''z''"
  by (simp_all add: tolower_def char_of_eq_iff)

lemma gen_lines_skip:
  "n_allele l < 2 \<Longrightarrow> gen_lines e args (pre @ l # post) evs = gen_lines e args (pre @ post) evs"
proof (induction pre arbitrary: evs)
  case Nil
  then have "n_allele l = 1" by (simp add: n_allele_def)
  then show ?case by simp
next
  case (Cons a pre)
  then show ?case by (simp add: Let_def)
qed

lemma gen_lines_events:
  "\<exists>more. fst (gen_lines e args ls evs) = evs @ more \<and> (\<forall>ev \<in> set more. gen_event ev)"
proof (induction ls arbitrary: evs)
  case Nil
  then show ?case by simp
next
  case (Cons l ls)
  show ?case
  proof (cases "n_allele l = 1 \<or> \<not> filter_pass args l \<or> length (convert args l) = 0")
    case True
    then have "gen_lines e args (l # ls) evs = gen_lines e args ls evs"
      by (auto simp add: Let_def)
    with Cons.IH [of evs] show ?thesis by simp
  next
    case False
    let ?s = "convert args l"
    show ?thesis
    proof (cases "bgzf_write e evs ?s \<noteq> int (length ?s)")
      case True
      with False have "gen_lines e args (l # ls) evs = (evs, Some Error_writing_gen)"
        by (simp add: Let_def)
      then show ?thesis by simp
    next
      case w: False
      with False have g: "gen_lines e args (l # ls) evs = gen_lines e args ls (evs @ [Bgzf_write ?s])"
        by (simp add: Let_def)
      from Cons.IH [of "evs @ [Bgzf_write ?s]"] obtain more where
        "fst (gen_lines e args ls (evs @ [Bgzf_write ?s])) = (evs @ [Bgzf_write ?s]) @ more"
        "\<forall>ev \<in> set more. gen_event ev"
        by blast
      then have "fst (gen_lines e args (l # ls) evs) = evs @ (Bgzf_write ?s # more) \<and>
          (\<forall>ev \<in> set (Bgzf_write ?s # more). gen_event ev)"
        unfolding g by (simp add: gen_event_def)
      then show ?thesis by blast
    qed
  qed
qed

lemma run_shape:
  "(\<exists>err. \<forall>ls. vcf_to_gensample e args ls = ([], Some err)) \<or>
   (\<exists>args1 sf gf md. \<forall>ls.
      vcf_to_gensample e args ls =
        (case gen_lines e args1 ls (sample_stream sf (header args1) @ [Bgzf_open gf md]) of
           (evs1, Some err) \<Rightarrow> (evs1, Some err)
         | (evs1, None) \<Rightarrow>
             if bgzf_close e evs1 \<noteq> 0 then (evs1, Some Error_closing_gen)
             else (evs1 @ [Bgzf_close], None)))"
proof -
  let ?fmt = "if tag args = None \<or> tag args = Some ''GT''
            then Inr (format_prefix @ ''%_GT_TO_PROB3'' @ [CHR 0x0A])
            else if tag args = Some ''PL''
            then Inr (format_prefix @ ''%_PL_TO_PROB3'' @ [CHR 0x0A])
            else Inl (Todo_tag (case tag args of Some tg \<Rightarrow> tg | None \<Rightarrow> []))"
  show ?thesis
  proof (cases ?fmt)
    case (Inl err)
    then have "\<forall>ls. vcf_to_gensample e args ls = ([], Some err)"
      by (simp add: vcf_to_gensample_def)
    then show ?thesis by blast
  next
    case (Inr fmt)
    show ?thesis
    proof (cases "open_vcf e args fmt")
      case (Inl err)
      with Inr have "\<forall>ls. vcf_to_gensample e args ls = ([], Some err)"
        by (simp add: vcf_to_gensample_def)
      then show ?thesis by blast
    next
      case o: (Inr args1)
      obtain gf sf ic where nm: "output_names (outfname args1) = (gf, sf, ic)"
        by (cases "output_names (outfname args1)")
      show ?thesis
      proof (cases "fopen_ok e")
        case False
        with Inr o nm have "\<forall>ls. vcf_to_gensample e args ls = ([], Some Failed_to_write_samples)"
          by (simp add: vcf_to_gensample_def)
        then show ?thesis by blast
      next
        case True
        with Inr o nm have "\<forall>ls.
          vcf_to_gensample e args ls =
            (case gen_lines e args1 ls
                    (sample_stream sf (header args1) @ [Bgzf_open gf (if ic \<noteq> 0 then ''w'' else ''wu'')]) of
               (evs1, Some err) \<Rightarrow> (evs1, Some err)
             | (evs1, None) \<Rightarrow>
                 if bgzf_close e evs1 \<noteq> 0 then (evs1, Some Error_closing_gen)
                 else (evs1 @ [Bgzf_close], None))"
          by (simp add: vcf_to_gensample_def sample_stream_def Let_def)
        then show ?thesis by blast
      qed
    qed
  qed
qed

lemma until_comma_eq:
  "until_comma s = (takeWhile (\<lambda>c. c \<noteq> CHR '','') s, dropWhile (\<lambda>c. c \<noteq> CHR '','') s)"
  by (induction s) simp_all

lemma at_dropWhile_comma:
  "at (dropWhile (\<lambda>c. c \<noteq> CHR '','') s) 0 \<noteq> NUL \<longleftrightarrow> CHR '','' \<in> set s"
proof (cases "dropWhile (\<lambda>c. c \<noteq> CHR '','') s")
  case Nil
  then have "\<forall>x \<in> set s. x \<noteq> CHR '',''"
    by (simp add: dropWhile_eq_Nil_conv)
  then have "CHR '','' \<notin> set s" by blast
  with Nil show ?thesis by (simp add: at_def)
next
  case (Cons c cs)
  then have "c = CHR '',''"
    using hd_dropWhile [of "\<lambda>c. c \<noteq> CHR '',''" s] by simp
  moreover from Cons have "CHR '','' \<in> set s"
    using set_dropWhileD [of "CHR '',''" "\<lambda>c. c \<noteq> CHR '',''" s] calculation by simp
  ultimately show ?thesis using Cons by (simp add: at_def NUL_def)
qed

lemma suffix_drop_eq:
  "suffix xs ys \<longleftrightarrow> length xs \<le> length ys \<and> drop (length ys - length xs) ys = xs"
proof
  assume "suffix xs ys"
  then obtain zs where "ys = zs @ xs" by (auto simp add: suffix_def)
  then show "length xs \<le> length ys \<and> drop (length ys - length xs) ys = xs" by simp
next
  assume a: "length xs \<le> length ys \<and> drop (length ys - length xs) ys = xs"
  have "ys = take (length ys - length xs) ys @ drop (length ys - length xs) ys"
    by simp
  with a have "ys = take (length ys - length xs) ys @ xs" by simp
  then show "suffix xs ys" unfolding suffix_def by blast
qed

lemma gz_lower: "map tolower ''.gz'' = ''.gz''"
  by (simp add: tolower_def)

lemma is_compressed_iff:
  "(length g < 3 \<or> \<not> strcasecmp_eq ''.gz'' (drop (length g - 3) g)) \<longleftrightarrow> \<not> suffix ''.gz'' (map tolower g)"
proof -
  have len: "length ''.gz'' = 3" by simp
  have s: "suffix ''.gz'' (map tolower g) \<longleftrightarrow>
      3 \<le> length g \<and> map tolower (drop (length g - 3) g) = ''.gz''"
    unfolding suffix_drop_eq [of "''.gz''" "map tolower g"] len length_map drop_map ..
  have c: "strcasecmp_eq ''.gz'' (drop (length g - 3) g) \<longleftrightarrow>
      map tolower (drop (length g - 3) g) = ''.gz''"
    unfolding strcasecmp_eq_def gz_lower by (rule eq_commute)
  show ?thesis
    unfolding s c by (cases "length g < 3") simp_all
qed

lemma open_vcf_mismatch:
  assumes "sample_list args = Some sl" "sl \<noteq> ''-''" "at sl 0 \<noteq> CHR ''^''"
    "hts_readlist e sl (sample_is_file args) = Some smpls"
    "length smpls \<noteq> length (snd (set_samples e (reader_header e) sl (sample_is_file args)))"
  shows "\<exists>err. open_vcf e args fmt = Inl err"
proof -
  obtain ret hdr where s: "set_samples e (reader_header e) sl (sample_is_file args) = (ret, hdr)"
    by (cases "set_samples e (reader_header e) sl (sample_is_file args)")
  with assms(5) have "length smpls \<noteq> length hdr" by simp
  with assms(1-4) s show ?thesis
    by (cases "filter_str args") (simp_all add: open_vcf_def Let_def)
qed

lemma or_exclude: "(v OR FLT_EXCLUDE) AND FLT_EXCLUDE \<noteq> 0" for v :: int
proof -
  have "bit ((v OR 2) AND 2) 1" by (simp add: bit_simps)
  then have "(v OR 2) AND 2 \<noteq> 0" by (auto simp del: bit_and_iff bit_or_iff)
  then show ?thesis unfolding FLT_EXCLUDE_def .
qed

lemma or_include: "(v OR FLT_INCLUDE) AND FLT_EXCLUDE = v AND FLT_EXCLUDE" for v :: int
  unfolding FLT_INCLUDE_def FLT_EXCLUDE_def
  by (rule bit_eqI) (auto simp add: bit_simps)

lemma set_option_filter:
  assumes "set_option a co = Inr a'"
  shows "filter_str a' = (if filter_opt co then Some (snd co) else filter_str a)"
    and "filter_logic a' =
           (if fst co = Short CHR ''e'' then filter_logic a OR FLT_EXCLUDE
            else if fst co = Short CHR ''i'' then filter_logic a OR FLT_INCLUDE
            else filter_logic a)"
  using assms
  by (auto simp add: set_option_def filter_opt_def split: prod.splits if_splits)

lemma set_options_filter_str:
  "set_options a opts = Inr args \<Longrightarrow>
     filter_str args =
       (if filter filter_opt opts = [] then filter_str a
        else Some (snd (last (filter filter_opt opts))))"
proof (induction opts arbitrary: a)
  case Nil
  then show ?case by simp
next
  case (Cons co opts)
  from Cons.prems obtain a1 where s: "set_option a co = Inr a1" and r: "set_options a1 opts = Inr args"
    by (auto split: sum.splits)
  from Cons.IH [OF r] set_option_filter(1) [OF s] show ?case
    by simp
qed

lemma set_options_exclude:
  "set_options a opts = Inr args \<Longrightarrow>
     (filter_logic args AND FLT_EXCLUDE \<noteq> 0) =
       (filter_logic a AND FLT_EXCLUDE \<noteq> 0 \<or> (\<exists>x. (Short CHR ''e'', x) \<in> set opts))"
proof (induction opts arbitrary: a)
  case Nil
  then show ?case by simp
next
  case (Cons co opts)
  from Cons.prems obtain a1 where s: "set_option a co = Inr a1" and r: "set_options a1 opts = Inr args"
    by (auto split: sum.splits)
  have "(filter_logic a1 AND FLT_EXCLUDE \<noteq> 0) =
      (filter_logic a AND FLT_EXCLUDE \<noteq> 0 \<or> fst co = Short CHR ''e'')"
    unfolding set_option_filter(2) [OF s] by (simp add: or_exclude or_include)
  with Cons.IH [OF r] show ?case
    by (cases co) auto
qed

lemma open_vcf_filter:
  assumes "open_vcf e args fmt = Inr args'"
  shows "filter_logic args' = filter_logic args"
    and "filter_t args' =
           (case filter_str args of
              None \<Rightarrow> filter_t args
            | Some fs \<Rightarrow> Some (filter_init e (header args') fs))"
  using assms
  by (auto simp add: open_vcf_def Let_def split: option.splits if_splits prod.splits)

lemma open_vcf_outfname:
  "open_vcf e args fmt = Inr args1 \<Longrightarrow> outfname args1 = outfname args"
  by (auto simp add: open_vcf_def Let_def split: option.splits if_splits prod.splits)

lemma format_of_tag:
  "tag_ok args \<Longrightarrow>
     (if tag args = None \<or> tag args = Some ''GT''
      then Inr (format_prefix @ ''%_GT_TO_PROB3'' @ [CHR 0x0A])
      else if tag args = Some ''PL''
      then Inr (format_prefix @ ''%_PL_TO_PROB3'' @ [CHR 0x0A])
      else Inl (Todo_tag (case tag args of Some tg \<Rightarrow> tg | None \<Rightarrow> []))) = Inr (gen_format args)"
  "\<not> tag_ok args \<Longrightarrow>
     (if tag args = None \<or> tag args = Some ''GT''
      then Inr (format_prefix @ ''%_GT_TO_PROB3'' @ [CHR 0x0A])
      else if tag args = Some ''PL''
      then Inr (format_prefix @ ''%_PL_TO_PROB3'' @ [CHR 0x0A])
      else Inl (Todo_tag (case tag args of Some tg \<Rightarrow> tg | None \<Rightarrow> [])))
       = Inl (Todo_tag (case tag args of Some tg \<Rightarrow> tg | None \<Rightarrow> []))"
  by (auto simp add: tag_ok_def gen_format_def)

lemma run_failed:
  assumes "\<not> (tag_ok args \<and> (\<exists>args1. open_vcf e args (gen_format args) = Inr args1) \<and> fopen_ok e)"
  shows "\<exists>err. vcf_to_gensample e args ls = ([], Some err)"
proof (cases "tag_ok args")
  case False
  then show ?thesis
    unfolding vcf_to_gensample_def format_of_tag(2) [OF False] by simp
next
  case True
  show ?thesis
  proof (cases "open_vcf e args (gen_format args)")
    case (Inl err)
    then show ?thesis
      unfolding vcf_to_gensample_def format_of_tag(1) [OF True] by simp
  next
    case (Inr args1)
    with True assms have "\<not> fopen_ok e" by simp
    with Inr show ?thesis
      unfolding vcf_to_gensample_def format_of_tag(1) [OF True]
      by (simp add: split_def)
  qed
qed

lemma run_started:
  assumes "tag_ok args" "open_vcf e args (gen_format args) = Inr args1" "fopen_ok e"
  shows "vcf_to_gensample e args ls =
           (case gen_lines e args1 ls
                   (sample_stream (fst (snd (output_names (outfname args)))) (header args1)
                      @ [Bgzf_open (fst (output_names (outfname args)))
                           (if snd (snd (output_names (outfname args))) \<noteq> 0 then ''w'' else ''wu'')]) of
              (evs1, Some err) \<Rightarrow> (evs1, Some err)
            | (evs1, None) \<Rightarrow>
                if bgzf_close e evs1 \<noteq> 0 then (evs1, Some Error_closing_gen)
                else (evs1 @ [Bgzf_close], None))"
  unfolding vcf_to_gensample_def format_of_tag(1) [OF assms(1)]
  using assms(2,3) open_vcf_outfname [OF assms(2)]
  by (simp add: split_def sample_stream_def Let_def)

section \<open>The claims\<close>

subsection \<open>Decoding one call\<close>

text \<open>
  C3, as amended. A token of one character that ends the line (the character after it
  is the terminating NUL) and does not start with a marker is decoded with the return
  value 0: the first genotype position is the unphased index that the array holds for
  its base, the second position is the vector-end sentinel, not an allele index, and the
  call is counted as homozygous (hom-ref when the base is the reference, hom-alt
  otherwise). A token of two characters that does not start with a marker gives the
  two positions in the order of its characters, both unphased, nothing being sorted.
\<close>

theorem decoded_positions:
  "(\<not> marker c0 \<and>
    tsv_setter_aa1 c [c0] 1 alleles nals ref g = (ret, c', alleles', nals', g') \<longrightarrow>
      ret = 0 \<and> g' = (Unphased (alleles' ! acgt_to_5 (toupper c0)), Vector_end) \<and>
      c' = (if ref = acgt_to_5 (toupper c0) then c\<lparr>hom_rr := hom_rr c + 1\<rparr>
            else c\<lparr>hom_aa := hom_aa c + 1\<rparr>)) \<and>
   (\<not> marker c0 \<and> c1 \<noteq> NUL \<and>
    tsv_setter_aa1 c (c0 # c1 # zs) 2 alleles nals ref g = (ret, c', alleles', nals', g') \<longrightarrow>
      ret = 0 \<and> g' = (Unphased (alleles' ! acgt_to_5 (toupper c0)),
                      Unphased (alleles' ! acgt_to_5 (toupper c1))))"
proof (intro conjI impI)
  assume a: "\<not> marker c0 \<and>
    tsv_setter_aa1 c [c0] 1 alleles nals ref g = (ret, c', alleles', nals', g')"
  have m: "\<not> marker (at [c0] 0)" using a by (simp add: at_def)
  have l: "\<not> 2 < (1 :: nat)" by simp
  have cd: "code0 [c0] = acgt_to_5 (toupper c0)" "code1 [c0] = acgt_to_5 (toupper c0)" "at [c0] 1 = NUL"
    by (simp_all add: code0_def code1_def at_def)
  from a show "ret = 0"
    and "g' = (Unphased (alleles' ! acgt_to_5 (toupper c0)), Vector_end)"
    and "c' = (if ref = acgt_to_5 (toupper c0) then c\<lparr>hom_rr := hom_rr c + 1\<rparr>
            else c\<lparr>hom_aa := hom_aa c + 1\<rparr>)"
    unfolding aa1_decoded [OF l m] cd by auto
next
  assume a: "\<not> marker c0 \<and> c1 \<noteq> NUL \<and>
    tsv_setter_aa1 c (c0 # c1 # zs) 2 alleles nals ref g = (ret, c', alleles', nals', g')"
  have m: "\<not> marker (at (c0 # c1 # zs) 0)" using a by (simp add: at_def)
  have l: "\<not> 2 < (2 :: nat)" by simp
  have cd: "code0 (c0 # c1 # zs) = acgt_to_5 (toupper c0)"
    "code1 (c0 # c1 # zs) = acgt_to_5 (toupper c1)" "at (c0 # c1 # zs) 1 \<noteq> NUL"
    using a by (simp_all add: code0_def code1_def at_def)
  from a show "ret = 0"
    and "g' = (Unphased (alleles' ! acgt_to_5 (toupper c0)),
                      Unphased (alleles' ! acgt_to_5 (toupper c1)))"
    unfolding aa1_decoded [OF l m] cd(1,2) by (auto simp add: at_def)
qed

theorem decoded_positions_witness:
  "tsv_setter_aa1 counters0 ''A'' 1 [- 1, 0, - 1, - 1, - 1] 1 1 (Vector_end, Vector_end)
     = (0, counters0\<lparr>hom_aa := 1\<rparr>, [1, 0, - 1, - 1, - 1], 2, (Unphased 1, Vector_end)) \<and>
   tsv_setter_aa1 counters0 ''AC'' 2 [- 1, 0, - 1, - 1, - 1] 1 1 (Vector_end, Vector_end)
     = (0, counters0\<lparr>het_ra := 1\<rparr>, [1, 0, - 1, - 1, - 1], 2, (Unphased 1, Unphased 0))"
proof -
  have m: "\<not> marker CHR ''A''" "CHR ''C'' \<noteq> NUL"
    by (simp_all add: marker_def NUL_def)
  have one: "tsv_setter_aa1 counters0 ''A'' 1 [- 1, 0, - 1, - 1, - 1] 1 1 (Vector_end, Vector_end)
     = (0, counters0\<lparr>hom_aa := 1\<rparr>, [1, 0, - 1, - 1, - 1], 2, (Unphased 1, Vector_end))"
    by (simp add: tsv_setter_aa1_def at_def NUL_def acgt_to_5_def counters0_def)
  have two: "tsv_setter_aa1 counters0 ''AC'' 2 [- 1, 0, - 1, - 1, - 1] 1 1 (Vector_end, Vector_end)
     = (0, counters0\<lparr>het_ra := 1\<rparr>, [1, 0, - 1, - 1, - 1], 2, (Unphased 1, Unphased 0))"
    by (simp add: tsv_setter_aa1_def at_def NUL_def acgt_to_5_def counters0_def)
  from decoded_positions [of "CHR ''A''" counters0 "[- 1, 0, - 1, - 1, - 1]" 1 1
      "(Vector_end, Vector_end)" 0 "counters0\<lparr>hom_aa := 1\<rparr>" "[1, 0, - 1, - 1, - 1]" 2
      "(Unphased 1, Vector_end)" "CHR ''C''" "[]"] m one
  have "(Unphased 1, Vector_end) = (Unphased ([1, 0, - 1, - 1, - 1] ! acgt_to_5 (toupper CHR ''A'')), Vector_end)"
    by blast
  moreover
  from decoded_positions [of "CHR ''A''" counters0 "[- 1, 0, - 1, - 1, - 1]" 1 1
      "(Vector_end, Vector_end)" 0 "counters0\<lparr>het_ra := 1\<rparr>" "[1, 0, - 1, - 1, - 1]" 2
      "(Unphased 1, Unphased 0)" "CHR ''C''" "[]"] m two
  have "(Unphased 1, Unphased 0) =
      (Unphased ([1, 0, - 1, - 1, - 1] ! acgt_to_5 (toupper CHR ''A'')),
       Unphased ([1, 0, - 1, - 1, - 1] ! acgt_to_5 (toupper CHR ''C'')))"
    by blast
  ultimately show ?thesis using one two by simp
qed

text \<open>
  C3 as stated fails: with the reference C, the token \<open>A\<close> at the end of a line leaves the
  unphased index 1 in the first position and the vector-end sentinel in the second, so
  the two positions do not hold the same allele index.
\<close>

theorem haploid_counterexample:
  "tsv_setter_aa1 counters0 ''A'' 1 [- 1, 0, - 1, - 1, - 1] 1 1 (Vector_end, Vector_end)
     = (0, counters0\<lparr>hom_aa := 1\<rparr>, [1, 0, - 1, - 1, - 1], 2, (Unphased 1, Vector_end)) \<and>
   Unphased 1 \<noteq> Vector_end"
  by (simp add: tsv_setter_aa1_def at_def NUL_def acgt_to_5_def counters0_def)

text \<open>
  The second character is read at \<^verbatim>\<open>ss[1]\<close> whatever the length of the token. When a
  token of one character is followed by a separator, the separator is taken for a base
  of the unknown code: with the reference C, the token \<open>A\<close> before a blank gives the
  genotype of A and N and is counted as a non-reference heterozygote.
\<close>

lemma separator_read_as_base:
  "tsv_setter_aa1 counters0 ''A CC'' 1 [- 1, 0, - 1, - 1, - 1] 1 1 (Vector_end, Vector_end)
     = (0, counters0\<lparr>het_aa := 1\<rparr>, [1, 0, - 1, - 1, 2], 3, (Unphased 1, Unphased 2))"
  by (simp add: tsv_setter_aa1_def at_def NUL_def acgt_to_5_def counters0_def toupper_def)

text \<open>
  C4. A call that is decoded (return value 0) changes the counters by one increment, of
  the counter of its genotype class; the increment is the addition of 1 on 32 bits. The
  class is a function of the reference code and of the two codes of the call alone, and
  the four classes are characterised as the specification words them: both codes equal
  the reference; exactly one does; both are equal and not the reference; both differ
  from each other and from the reference.
\<close>

theorem tally_class:
  assumes "tsv_setter_aa1 c ss se alleles nals ref g = (0, c', alleles', nals', g')"
  shows "c' = tally (genotype_class ref (code0 ss) (code1 ss)) c \<and>
     (genotype_class ref (code0 ss) (code1 ss) = Hom_ref \<longleftrightarrow> code0 ss = ref \<and> code1 ss = ref) \<and>
     (genotype_class ref (code0 ss) (code1 ss) = Het_ref_alt \<longleftrightarrow> (code0 ss = ref) \<noteq> (code1 ss = ref)) \<and>
     (genotype_class ref (code0 ss) (code1 ss) = Hom_alt \<longleftrightarrow> code0 ss = code1 ss \<and> code0 ss \<noteq> ref) \<and>
     (genotype_class ref (code0 ss) (code1 ss) = Het_non_ref \<longleftrightarrow>
        code0 ss \<noteq> code1 ss \<and> code0 ss \<noteq> ref \<and> code1 ss \<noteq> ref)"
proof -
  have "c' = tally (genotype_class ref (code0 ss) (code1 ss)) c"
  proof (cases "2 < se")
    case True
    from assms show ?thesis by (simp add: aa1_long [OF True])
  next
    case False
    show ?thesis
    proof (cases "marker (at ss 0)")
      case True
      from assms show ?thesis by (simp add: aa1_marker [OF False True])
    next
      case nm: False
      from assms have "c' = fst (snd (tsv_setter_aa1 c ss se alleles nals ref g))" by simp
      then show ?thesis by (simp only: aa1_tally [OF False nm])
    qed
  qed
  then show ?thesis using genotype_class_iff [of ref "code0 ss" "code1 ss"] by blast
qed

theorem tally_class_witness:
  "tsv_setter_aa1 counters0 ''CA'' 2 [- 1, 0, - 1, - 1, - 1] 1 1 (Vector_end, Vector_end)
     = (0, counters0\<lparr>het_ra := 1\<rparr>, [1, 0, - 1, - 1, - 1], 2, (Unphased 0, Unphased 1)) \<and>
   counters0\<lparr>het_ra := 1\<rparr> = tally (genotype_class 1 (code0 ''CA'') (code1 ''CA'')) counters0 \<and>
   genotype_class 1 (code0 ''CA'') (code1 ''CA'') = Het_ref_alt"
proof -
  have h: "tsv_setter_aa1 counters0 ''CA'' 2 [- 1, 0, - 1, - 1, - 1] 1 1 (Vector_end, Vector_end)
     = (0, counters0\<lparr>het_ra := 1\<rparr>, [1, 0, - 1, - 1, - 1], 2, (Unphased 0, Unphased 1))"
    by (simp add: tsv_setter_aa1_def at_def NUL_def acgt_to_5_def counters0_def)
  have "code0 ''CA'' = 1" "code1 ''CA'' = 0"
    by (simp_all add: code0_def code1_def at_def NUL_def acgt_to_5_def)
  with h tally_class [OF h] show ?thesis by simp
qed

text \<open>At the largest value of a counter the increment wraps around to the least one.\<close>

lemma tally_wraps:
  "tsv_setter_aa1 (counters0\<lparr>hom_rr := 0x7FFFFFFF\<rparr>) ''CC'' 2 [- 1, 0, - 1, - 1, - 1] 1 1
       (Vector_end, Vector_end)
     = (0, counters0\<lparr>hom_rr := 0x80000000\<rparr>, [- 1, 0, - 1, - 1, - 1], 1, (Unphased 0, Unphased 0)) \<and>
   sint (0x7FFFFFFF :: 32 word) = 2147483647 \<and> sint (0x80000000 :: 32 word) = - 2147483648"
  by (simp add: tsv_setter_aa1_def at_def NUL_def acgt_to_5_def counters0_def)

subsection \<open>Rows of the tabular input\<close>

text \<open>
  C5. \<open>tsv_setter_aa1\<close> returns -1 exactly when the token has more than two characters,
  so tokens of one or two characters pass this check. In a row whose calls before such
  a token are all decoded, the loop over the samples reaches the token and
  \<open>tsv_setter_aa\<close> ends with the fatal error. The run ends there too, whatever its state and
  whatever rows follow: nothing is skipped or counted, no result is returned.
\<close>

theorem long_token_aborts:
  "(fst (tsv_setter_aa1 c ss se alleles nals ref g) = - 1 \<longleftrightarrow> 2 < se) \<and>
   (cur t # rest t = pre @ w # post \<and> (\<forall>v \<in> set pre. usable v) \<and> 2 < snd w \<and>
    length pre < length (header args)
      \<longrightarrow> tsv_setter_aa (Some ref') upd_ret t rec args = Inl Expected_two_characters) \<and>
   (0 < length (line r) \<and> at (line r) 0 \<noteq> CHR ''#'' \<and> coords_ok r \<and> fetch r = Some ref' \<and>
    cols r = pre @ w # post \<and> (\<forall>v \<in> set pre. usable v) \<and> 2 < snd w \<and>
    length pre < length (header args)
      \<longrightarrow> tsv_rows accept (r # rs) out rec args = Inl Expected_two_characters)"
proof (intro conjI impI)
  show "fst (tsv_setter_aa1 c ss se alleles nals ref g) = - 1 \<longleftrightarrow> 2 < se"
    by (simp add: tsv_setter_aa1_def Let_def split_def)
next
  assume "cur t # rest t = pre @ w # post \<and> (\<forall>v \<in> set pre. usable v) \<and> 2 < snd w \<and>
    length pre < length (header args)"
  then show "tsv_setter_aa (Some ref') upd_ret t rec args = Inl Expected_two_characters"
    by (intro setter_long [where pre = pre and w = w and post = post]) simp_all
next
  assume a: "0 < length (line r) \<and> at (line r) 0 \<noteq> CHR ''#'' \<and> coords_ok r \<and> fetch r = Some ref' \<and>
    cols r = pre @ w # post \<and> (\<forall>v \<in> set pre. usable v) \<and> 2 < snd w \<and>
    length pre < length (header args)"
  then obtain x xs where c: "cols r = x # xs" and x: "x # xs = pre @ w # post"
    by (cases pre) auto
  let ?args1 = "args\<lparr>args_n := (args_n args)\<lparr>total := total (args_n args) + 1\<rparr>\<rparr>"
  have "tsv_setter_aa (Some ref') (upd r) \<lparr>cur = x, rest = xs\<rparr> rec ?args1 = Inl Expected_two_characters"
    using a x by (intro setter_long [where pre = pre and w = w and post = post]) simp_all
  moreover from a have "coords_ok r" "fetch r = Some ref'" by simp_all
  ultimately have "tsv_parse accept r rec ?args1 = Inl Expected_two_characters"
    using c by (simp add: tsv_parse_def)
  with a show "tsv_rows accept (r # rs) out rec args = Inl Expected_two_characters"
    by (simp add: Let_def)
qed

theorem long_token_aborts_witness:
  "fst (tsv_setter_aa1 counters0 ''ACG'' 3 [- 1, 0, - 1, - 1, - 1] 1 1 (Vector_end, Vector_end)) = - 1 \<and>
   tsv_setter_aa (Some ''C'') 0 \<lparr>cur = (''CC ACG'', 2), rest = [(''ACG'', 3)]\<rparr> rec0
     (args_smpl [''s1'', ''s2'']) = Inl Expected_two_characters \<and>
   tsv_rows (\<lambda>ret. 0 \<le> ret) [ex_row ''rs1 1 100 CC ACG'' [(''CC ACG'', 2), (''ACG'', 3)]] []
     rec0 (args_smpl [''s1'', ''s2'']) = Inl Expected_two_characters"
proof -
  have u: "\<forall>v \<in> set [(''CC ACG'', 2 :: nat)]. usable v"
    by (simp add: usable_def marker_def at_def)
  from long_token_aborts [of counters0 "''ACG''" 3 "[- 1, 0, - 1, - 1, - 1]" 1 1
      "(Vector_end, Vector_end)" "\<lparr>cur = (''CC ACG'', 2), rest = [(''ACG'', 3)]\<rparr>"
      "[(''CC ACG'', 2)]" "(''ACG'', 3)" "[]" "args_smpl [''s1'', ''s2'']" "''C''" 0 rec0
      "ex_row ''rs1 1 100 CC ACG'' [(''CC ACG'', 2), (''ACG'', 3)]"
      "\<lambda>ret. 0 \<le> ret" "[]" "[]"] u
  show ?thesis by (simp add: at_def)
qed

text \<open>
  C1, where the code departs from the claim. \<open>tsv_setter_aa\<close> returns 0 when a call
  starts with a marker, the value it returns for a row it has converted. So for every
  reader that accepts the return value 0, a row whose first call that is not decoded
  starts with a marker is written like an accepted row, with the alleles and genotypes
  the record had before, and the counter of skipped rows stays as it was.
\<close>

theorem gap_row_is_written:
  assumes "accept 0" "0 < length (line r)" "at (line r) 0 \<noteq> CHR ''#''" "coords_ok r"
    "fetch r = Some ref" "cols r = pre @ w # post" "\<forall>v \<in> set pre. usable v"
    "\<not> 2 < snd w" "marker (at (fst w) 0)" "length pre < length (header args)"
  shows "\<exists>args'.
           tsv_rows accept (r # rs) out rec args
             = tsv_rows accept rs (out @ [rec\<lparr>n_sample := length (header args)\<rparr>])
                 (rec\<lparr>n_sample := length (header args)\<rparr>) args' \<and>
           skipped (args_n args') = skipped (args_n args) \<and>
           total (args_n args') = total (args_n args) + 1"
proof -
  from assms(6) obtain x xs where c: "cols r = x # xs" and x: "x # xs = pre @ w # post"
    by (cases pre) auto
  let ?args1 = "args\<lparr>args_n := (args_n args)\<lparr>total := total (args_n args) + 1\<rparr>\<rparr>"
  have "\<exists>t' args'.
           tsv_setter_aa (Some ref) (upd r) \<lparr>cur = x, rest = xs\<rparr> rec ?args1
             = Inr (0, t', rec\<lparr>n_sample := length (header ?args1)\<rparr>, args') \<and>
           skipped (args_n args') = skipped (args_n ?args1) \<and>
           total (args_n args') = total (args_n ?args1)"
    using assms x by (intro setter_marker [where pre = pre and w = w and post = post]) simp_all
  then obtain t' args' where
    s: "tsv_setter_aa (Some ref) (upd r) \<lparr>cur = x, rest = xs\<rparr> rec ?args1
             = Inr (0, t', rec\<lparr>n_sample := length (header args)\<rparr>, args')"
    and k: "skipped (args_n args') = skipped (args_n args)"
      "total (args_n args') = total (args_n args) + 1"
    by auto
  from s assms(1,4,5) c have "tsv_parse accept r rec ?args1 = Inr (0, rec\<lparr>n_sample := length (header args)\<rparr>, args')"
    by (simp add: tsv_parse_def)
  with assms(2,3) have "tsv_rows accept (r # rs) out rec args
             = tsv_rows accept rs (out @ [rec\<lparr>n_sample := length (header args)\<rparr>])
                 (rec\<lparr>n_sample := length (header args)\<rparr>) args'"
    by (simp add: Let_def)
  with k show ?thesis by blast
qed

theorem gap_row_is_written_witness:
  "\<exists>args'. tsv_rows (\<lambda>ret. 0 \<le> ret) [ex_row ''rs1 1 100 CC --'' [(''CC --'', 2), (''--'', 2)]] []
        rec0 (args_smpl [''s1'', ''s2''])
       = Inr ([rec0\<lparr>n_sample := 2\<rparr>], rec0\<lparr>n_sample := 2\<rparr>, args') \<and>
     skipped (args_n args') = 0 \<and> total (args_n args') = 1"
proof -
  let ?r = "ex_row ''rs1 1 100 CC --'' [(''CC --'', 2), (''--'', 2)]"
  let ?args = "args_smpl [''s1'', ''s2'']"
  have h: "(0 :: int) \<le> 0" "0 < length (line ?r)" "at (line ?r) 0 \<noteq> CHR ''#''" "coords_ok ?r"
    "fetch ?r = Some ''C''" "cols ?r = [(''CC --'', 2)] @ (''--'', 2) # []"
    "\<forall>v \<in> set [(''CC --'', 2 :: nat)]. usable v" "\<not> 2 < snd (''--'', 2 :: nat)"
    "marker (at (fst (''--'', 2 :: nat)) 0)" "length [(''CC --'', 2 :: nat)] < length (header ?args)"
    by (simp_all add: usable_def marker_def at_def)
  have z: "skipped (args_n ?args) = 0" "total (args_n ?args) = 0" "length (header ?args) = 2"
    by (simp_all add: args_smpl_def args0_def counters0_def)
  from gap_row_is_written [of "\<lambda>ret. 0 \<le> ret", OF h, of "[]" "[]" rec0]
  show ?thesis
    by (simp only: z tsv_rows.simps(1) append_Nil add_0)
qed

text \<open>
  The same on a whole run of two lines, the second with a gap in its second call: two
  records are written, the second a copy of the first, and no row is counted as skipped.
\<close>

lemma gap_row_example:
  "tsv_to_vcf ex_env (args0\<lparr>ref_fname := Some ''ref.fa'', sample_list := Some ''s1,s2''\<rparr>)
     [ex_row ''rs1 1 100 CC CA'' [(''CC CA'', 2), (''CA'', 2)],
      ex_row ''rs2 1 200 CC --'' [(''CC --'', 2), (''--'', 2)]]
   = Inr ([\<lparr>n_sample = 2, alleles_str = ''C,A'',
            genotypes = [Unphased 0, Unphased 0, Unphased 0, Unphased 1]\<rparr>,
           \<lparr>n_sample = 2, alleles_str = ''C,A'',
            genotypes = [Unphased 0, Unphased 0, Unphased 0, Unphased 1]\<rparr>],
          \<lparr>total = 2, skipped = 0, hom_rr = 2, het_ra = 1, hom_aa = 0, het_aa = 0\<rparr>)"
  by code_simp

text \<open>
  C2, as amended. Take a row in which every call is decoded and every token is all that
  the decoder reads of it (two characters, or one character that ends the line). When
  the reference text has a base, the text handed to \<^verbatim>\<open>bcf_update_alleles_str\<close> is the
  upper-cased reference base followed by a comma and a letter for each code that occurs
  among the characters of the tokens and is not the code of the reference, each once;
  the letter N of the unknown code is among them when such a character occurs. When the
  reference text is empty, the text handed over is empty. The statement leaves the order
  of the letters open.
\<close>

theorem emitted_alleles:
  assumes "cur t # rest t = ws @ post" "length ws = length (header args)"
    "\<forall>w \<in> set ws. usable w \<and> whole w"
  shows "\<exists>t' rec' args' alts.
           tsv_setter_aa (Some ref) 0 t rec args = Inr (0, t', rec', args') \<and>
           (at ref 0 \<noteq> NUL \<longrightarrow>
              alleles_str rec' = toupper (at ref 0) # concat (map (\<lambda>ch. [CHR '','', ch]) alts)) \<and>
           (at ref 0 = NUL \<longrightarrow> alleles_str rec' = []) \<and>
           distinct alts \<and>
           set alts = (\<lambda>j. ''ACGTN'' ! j) ` (observed ws - {acgt_to_5 (toupper (at ref 0))})"
proof -
  let ?ref0 = "toupper (at ref 0)"
  let ?iref = "acgt_to_5 ?ref0"
  let ?init = "([- 1, - 1, - 1, - 1, - 1][?iref := 0], 1 :: int)"
  let ?tn = "foldl slot2 ?init ws"
  let ?alts = "map (\<lambda>j. ''ACGTN'' ! j) (filter (\<lambda>j. fst ?tn ! j > 0) [0 ..< 5])"
  from assms(3) have us: "\<forall>w \<in> set ws. usable w" and wh: "\<forall>w \<in> set ws. whole w"
    by simp_all
  have inv0: "tab_inv ?iref {} ?init"
    by (rule tab_inv_init [OF acgt_to_5_less])
  from assms(1) have "pending 0 t = ws @ post"
    by (simp add: pending_def)
  from loop_completed [OF this us, of "length (header args)" ?iref args ?init] assms(2)
  obtain t' args' where
    run: "aa_samples 0 (length (header args)) ?iref (t, args, ?init) = Inr (Completed, t', args', ?tn)"
    by auto
  obtain al nl where tn: "?tn = (al, nl)"
    by (cases ?tn)
  let ?str = "put_alleles [0 ..< 5] al [?ref0]"
  let ?rec' = "rec\<lparr>n_sample := length (header args), alleles_str := c_str ?str,
                   genotypes := take (length (header args) * 2) (gts args')\<rparr>"
  from run tn have r: "tsv_setter_aa (Some ref) 0 t rec args = Inr (0, t', ?rec', args'\<lparr>str := ?str\<rparr>)"
    by (simp add: tsv_setter_aa_def Let_def)
  have p: "?str = ?ref0 # concat (map (\<lambda>ch. [CHR '','', ch]) ?alts)"
    using tn by (simp only: put_alleles_concat fst_conv append_Cons append_Nil)
  have d: "distinct ?alts"
    by (rule assigned_letters(1) [OF inv0])
  have e: "set ?alts = (\<lambda>j. ''ACGTN'' ! j) ` (observed ws - {?iref})"
    using assigned_letters(2) [OF inv0, of ws] by (simp only: whole_read_codes [OF wh])
  have sub: "set ?alts \<subseteq> set ''ACGTN''"
  proof
    fix x assume "x \<in> set ?alts"
    then obtain j where "x = ''ACGTN'' ! j" "j < length ''ACGTN''"
      by auto
    then show "x \<in> set ''ACGTN''"
      by (simp only: nth_mem)
  qed
  have c: "c_str ?str = (if ?ref0 = NUL then [] else ?ref0 # concat (map (\<lambda>ch. [CHR '','', ch]) ?alts))"
    unfolding p by (rule c_str_alleles [OF sub])
  have c': "c_str ?str = (if at ref 0 = NUL then [] else ?ref0 # concat (map (\<lambda>ch. [CHR '','', ch]) ?alts))"
    using c by (simp only: toupper_NUL)
  have s1: "at ref 0 \<noteq> NUL \<longrightarrow> alleles_str ?rec' = ?ref0 # concat (map (\<lambda>ch. [CHR '','', ch]) ?alts)"
  proof
    assume n: "at ref 0 \<noteq> NUL"
    have "c_str ?str = ?ref0 # concat (map (\<lambda>ch. [CHR '','', ch]) ?alts)"
      by (subst c') (simp only: n if_False)
    then show "alleles_str ?rec' = ?ref0 # concat (map (\<lambda>ch. [CHR '','', ch]) ?alts)"
      by simp
  qed
  have s2: "at ref 0 = NUL \<longrightarrow> alleles_str ?rec' = []"
  proof
    assume n: "at ref 0 = NUL"
    have "c_str ?str = []"
      by (subst c') (simp only: n if_True refl)
    then show "alleles_str ?rec' = []"
      by simp
  qed
  from r s1 s2 d e show ?thesis by blast
qed

theorem emitted_alleles_witness:
  "\<exists>t' rec' args' alts.
     tsv_setter_aa (Some ''C'') 0 \<lparr>cur = (''CA N'', 2), rest = [(''N'', 1)]\<rparr> rec0
       (args_smpl [''s1'', ''s2'']) = Inr (0, t', rec', args') \<and>
     alleles_str rec' = CHR ''C'' # concat (map (\<lambda>ch. [CHR '','', ch]) alts) \<and>
     distinct alts \<and> set alts = {CHR ''A'', CHR ''N''}"
proof -
  let ?t = "\<lparr>cur = (''CA N'', 2 :: nat), rest = [(''N'', 1)]\<rparr>"
  have h: "cur ?t # rest ?t = [(''CA N'', 2), (''N'', 1)] @ []"
    "length [(''CA N'', 2 :: nat), (''N'', 1)] = length (header (args_smpl [''s1'', ''s2'']))"
    "\<forall>w \<in> set [(''CA N'', 2 :: nat), (''N'', 1)]. usable w \<and> whole w"
    by (simp_all add: usable_def whole_def marker_def at_def NUL_def)
  have "observed [(''CA N'', 2), (''N'', 1)] - {acgt_to_5 CHR ''C''} = {0, 4}"
    by (auto simp add: observed_def token_def acgt_to_5_def)
  then have o: "(\<lambda>j. ''ACGTN'' ! j) ` (observed [(''CA N'', 2), (''N'', 1)] - {acgt_to_5 CHR ''C''})
      = {CHR ''A'', CHR ''N''}"
    by simp
  have r: "toupper (at ''C'' 0) = CHR ''C''" "at ''C'' 0 \<noteq> NUL" "at ''C'' 0 = NUL \<longleftrightarrow> False"
    by (simp_all add: at_def NUL_def)
  from emitted_alleles [OF h, of "''C''" rec0]
  show ?thesis
    by (simp only: r o simp_thms)
qed

text \<open>A site whose reference text is empty: the allele text is the empty string.\<close>

lemma empty_reference_example:
  "written (tsv_setter_aa (Some []) 0 \<lparr>cur = (''AA'', 2), rest = []\<rparr> rec0 (args_smpl [''s1'']))
     = Some \<lparr>n_sample = 1, alleles_str = [], genotypes = [Unphased 1, Unphased 1]\<rparr>"
  by code_simp

text \<open>
  C2 as stated fails. With the reference C, the call \<open>CN\<close> puts N into the allele list.
  The call \<open>TA\<close> assigns the index 1 to T and the index 2 to A, as the genotypes show,
  and the list is \<open>C,A,T\<close>: it follows the order A, C, G, T, N of the array, not the
  order of the assigned indices.
\<close>

theorem emitted_alleles_counterexample:
  "written (tsv_setter_aa (Some ''C'') 0 \<lparr>cur = (''CN'', 2), rest = []\<rparr> rec0 (args_smpl [''s1'']))
     = Some \<lparr>n_sample = 1, alleles_str = ''C,N'', genotypes = [Unphased 0, Unphased 1]\<rparr> \<and>
   written (tsv_setter_aa (Some ''C'') 0 \<lparr>cur = (''TA'', 2), rest = []\<rparr> rec0 (args_smpl [''s1'']))
     = Some \<lparr>n_sample = 1, alleles_str = ''C,A,T'', genotypes = [Unphased 1, Unphased 2]\<rparr>"
  by code_simp

subsection \<open>The variant-to-tabular direction\<close>

text \<open>
  C8. With a filter and the include flag alone, a site passes the gate exactly when
  \<^verbatim>\<open>filter_test\<close> returns a value other than 0; with the exclude flag alone, exactly when
  it returns 0; without a filter, every site passes.
\<close>

theorem filter_gate:
  "(filter_t args = Some flt \<and> filter_logic args = FLT_INCLUDE
      \<longrightarrow> (filter_pass args l \<longleftrightarrow> flt l \<noteq> 0)) \<and>
   (filter_t args = Some flt \<and> filter_logic args = FLT_EXCLUDE
      \<longrightarrow> (filter_pass args l \<longleftrightarrow> flt l = 0)) \<and>
   (filter_t args = None \<longrightarrow> filter_pass args l)"
  by (simp add: filter_pass_def FLT_INCLUDE_def FLT_EXCLUDE_def Let_def)

theorem filter_gate_witness:
  "filter_pass (args0\<lparr>filter_t := Some (\<lambda>l. if 150 < pos l then 1 else 0), filter_logic := FLT_INCLUDE\<rparr>)
     (ex_site ''rs1'' 200 [''A'']) \<and>
   \<not> filter_pass (args0\<lparr>filter_t := Some (\<lambda>l. if 150 < pos l then 1 else 0), filter_logic := FLT_EXCLUDE\<rparr>)
     (ex_site ''rs1'' 200 [''A'']) \<and>
   filter_pass args0 (ex_site ''rs1'' 200 [''A''])"
  using
    filter_gate [of "args0\<lparr>filter_t := Some (\<lambda>l. if 150 < pos l then 1 else 0), filter_logic := FLT_INCLUDE\<rparr>"
      "\<lambda>l. if 150 < pos l then 1 else 0" "ex_site ''rs1'' 200 [''A'']"]
    filter_gate [of "args0\<lparr>filter_t := Some (\<lambda>l. if 150 < pos l then 1 else 0), filter_logic := FLT_EXCLUDE\<rparr>"
      "\<lambda>l. if 150 < pos l then 1 else 0" "ex_site ''rs1'' 200 [''A'']"]
    filter_gate [of args0 "\<lambda>l. 0" "ex_site ''rs1'' 200 [''A'']"]
  by (simp add: args0_def)

text \<open>
  C9. A record with fewer than two alleles leaves no trace: the run on an input with
  such a record gives the events and the status of the run on the input without it.
  When the set-up succeeds (a known tag, the source opens, the sample file opens), the
  events of the run on any input start with the complete sample stream: the sample file
  named by the output specifier is opened, the two header lines and one line for each
  sample of the header are written, and the file is closed; then the genotype stream is
  opened, and all later events are writes to it and its closing. The sample stream does
  not depend on the records. When the set-up fails, the run has no event and ends with
  an error.
\<close>

theorem monomorphic_sites_skipped:
  "(n_allele l < 2
      \<longrightarrow> vcf_to_gensample e args (pre @ l # post) = vcf_to_gensample e args (pre @ post)) \<and>
   (tag_ok args \<and> open_vcf e args (gen_format args) = Inr args1 \<and> fopen_ok e
      \<longrightarrow> (\<exists>more.
            fst (vcf_to_gensample e args ls) =
              sample_stream (fst (snd (output_names (outfname args)))) (header args1)
                @ Bgzf_open (fst (output_names (outfname args)))
                    (if snd (snd (output_names (outfname args))) \<noteq> 0 then ''w'' else ''wu'')
                # more \<and>
            (\<forall>ev \<in> set more. gen_event ev))) \<and>
   (\<not> (tag_ok args \<and> (\<exists>args1. open_vcf e args (gen_format args) = Inr args1) \<and> fopen_ok e)
      \<longrightarrow> fst (vcf_to_gensample e args ls) = [] \<and> snd (vcf_to_gensample e args ls) \<noteq> None)"
proof (intro conjI impI)
  assume "n_allele l < 2"
  with run_shape [of e args]
  show "vcf_to_gensample e args (pre @ l # post) = vcf_to_gensample e args (pre @ post)"
    by (auto simp add: gen_lines_skip)
next
  assume a: "tag_ok args \<and> open_vcf e args (gen_format args) = Inr args1 \<and> fopen_ok e"
  let ?evs = "sample_stream (fst (snd (output_names (outfname args)))) (header args1)
                @ [Bgzf_open (fst (output_names (outfname args)))
                    (if snd (snd (output_names (outfname args))) \<noteq> 0 then ''w'' else ''wu'')]"
  from a have r: "vcf_to_gensample e args ls =
           (case gen_lines e args1 ls ?evs of
              (evs1, Some err) \<Rightarrow> (evs1, Some err)
            | (evs1, None) \<Rightarrow>
                if bgzf_close e evs1 \<noteq> 0 then (evs1, Some Error_closing_gen)
                else (evs1 @ [Bgzf_close], None))"
    by (intro run_started) simp_all
  from gen_lines_events [of e args1 ls ?evs] obtain more where
    m: "fst (gen_lines e args1 ls ?evs) = ?evs @ more" "\<forall>ev \<in> set more. gen_event ev"
    by blast
  obtain evs1 st where g: "gen_lines e args1 ls ?evs = (evs1, st)"
    by (cases "gen_lines e args1 ls ?evs")
  with m have e1: "evs1 = ?evs @ more" by simp
  have "fst (vcf_to_gensample e args ls) = evs1 \<or> fst (vcf_to_gensample e args ls) = evs1 @ [Bgzf_close]"
    unfolding r g by (cases st) simp_all
  then show "\<exists>more.
            fst (vcf_to_gensample e args ls) =
              sample_stream (fst (snd (output_names (outfname args)))) (header args1)
                @ Bgzf_open (fst (output_names (outfname args)))
                    (if snd (snd (output_names (outfname args))) \<noteq> 0 then ''w'' else ''wu'')
                # more \<and>
            (\<forall>ev \<in> set more. gen_event ev)"
  proof
    assume "fst (vcf_to_gensample e args ls) = evs1"
    with e1 m(2) show ?thesis by simp
  next
    assume "fst (vcf_to_gensample e args ls) = evs1 @ [Bgzf_close]"
    with e1 m(2) have "fst (vcf_to_gensample e args ls)
        = sample_stream (fst (snd (output_names (outfname args)))) (header args1)
                @ Bgzf_open (fst (output_names (outfname args)))
                    (if snd (snd (output_names (outfname args))) \<noteq> 0 then ''w'' else ''wu'')
                # (more @ [Bgzf_close]) \<and>
      (\<forall>ev \<in> set (more @ [Bgzf_close]). gen_event ev)"
      by (simp add: gen_event_def)
    then show ?thesis by blast
  qed
next
  assume a: "\<not> (tag_ok args \<and> (\<exists>args1. open_vcf e args (gen_format args) = Inr args1) \<and> fopen_ok e)"
  from run_failed [OF a, of ls]
  show "fst (vcf_to_gensample e args ls) = []" "snd (vcf_to_gensample e args ls) \<noteq> None"
    by auto
qed

theorem monomorphic_sites_skipped_witness:
  "n_allele (ex_site ''rs2'' 200 []) < 2 \<and>
   vcf_to_gensample ex_env ex_args
     ([ex_site ''rs1'' 100 [''A'']] @ ex_site ''rs2'' 200 [] # [ex_site ''rs3'' 300 [''T'']])
   = vcf_to_gensample ex_env ex_args ([ex_site ''rs1'' 100 [''A'']] @ [ex_site ''rs3'' 300 [''T'']]) \<and>
   (\<exists>more.
      fst (vcf_to_gensample ex_env ex_args
             [ex_site ''rs1'' 100 [''A''], ex_site ''rs2'' 200 [], ex_site ''rs3'' 300 [''T'']])
        = sample_stream ''out.samples'' [''NA1'', ''NA2'', ''NA3'']
            @ Bgzf_open ''out.gen.gz'' ''w'' # more \<and>
      (\<forall>ev \<in> set more. gen_event ev)) \<and>
   fst (vcf_to_gensample ex_env (ex_args\<lparr>tag := Some ''GL''\<rparr>) []) = [] \<and>
   snd (vcf_to_gensample ex_env (ex_args\<lparr>tag := Some ''GL''\<rparr>) []) \<noteq> None"
proof -
  let ?ls = "[ex_site ''rs1'' 100 [''A''], ex_site ''rs2'' 200 [], ex_site ''rs3'' 300 [''T'']]"
  have t: "tag_ok ex_args" "fopen_ok ex_env" "\<not> tag_ok (ex_args\<lparr>tag := Some ''GL''\<rparr>)"
    by (simp_all add: tag_ok_def ex_args_def args0_def ex_env_def)
  obtain args1 where ov: "open_vcf ex_env ex_args (gen_format ex_args) = Inr args1"
    and hd: "header args1 = [''NA1'', ''NA2'', ''NA3'']"
    by (simp add: open_vcf_def ex_env_def ex_args_def args0_def Let_def)
  have nm: "output_names (outfname ex_args) = (''out.gen.gz'', ''out.samples'', 1)"
    by (simp add: ex_args_def args0_def output_names_def at_def)
  have one: "n_allele (ex_site ''rs2'' 200 []) < 2"
    by (simp add: n_allele_def)
  note th = monomorphic_sites_skipped [of "ex_site ''rs2'' 200 []" ex_env ex_args
      "[ex_site ''rs1'' 100 [''A'']]" "[ex_site ''rs3'' 300 [''T'']]" args1 ?ls]
  from th one have a: "vcf_to_gensample ex_env ex_args
     ([ex_site ''rs1'' 100 [''A'']] @ ex_site ''rs2'' 200 [] # [ex_site ''rs3'' 300 [''T'']])
   = vcf_to_gensample ex_env ex_args ([ex_site ''rs1'' 100 [''A'']] @ [ex_site ''rs3'' 300 [''T'']])"
    by blast
  from th t ov have "\<exists>more.
      fst (vcf_to_gensample ex_env ex_args ?ls)
        = sample_stream (fst (snd (output_names (outfname ex_args)))) (header args1)
            @ Bgzf_open (fst (output_names (outfname ex_args)))
                (if snd (snd (output_names (outfname ex_args))) \<noteq> 0 then ''w'' else ''wu'') # more \<and>
      (\<forall>ev \<in> set more. gen_event ev)"
    by blast
  then have b: "\<exists>more.
      fst (vcf_to_gensample ex_env ex_args ?ls)
        = sample_stream ''out.samples'' [''NA1'', ''NA2'', ''NA3'']
            @ Bgzf_open ''out.gen.gz'' ''w'' # more \<and>
      (\<forall>ev \<in> set more. gen_event ev)"
    by (simp add: nm hd)
  from monomorphic_sites_skipped [of "ex_site ''rs2'' 200 []" ex_env "ex_args\<lparr>tag := Some ''GL''\<rparr>"
      "[]" "[]" args1 "[]"] t(3)
  have c: "fst (vcf_to_gensample ex_env (ex_args\<lparr>tag := Some ''GL''\<rparr>) []) = []"
    "snd (vcf_to_gensample ex_env (ex_args\<lparr>tag := Some ''GL''\<rparr>) []) \<noteq> None"
    by blast+
  from one a b c show ?thesis by blast
qed

text \<open>The events of the run of the witness: the site rs2 without alternate allele is absent.\<close>

lemma monomorphic_example:
  "vcf_to_gensample ex_env ex_args
     [ex_site ''rs1'' 100 [''A''], ex_site ''rs2'' 200 [], ex_site ''rs3'' 300 [''T'']]
   = ([Fopen ''out.samples'',
       Fprintf (''ID_1 ID_2 missing'' @ [CHR 0x0A] @ ''0 0 0'' @ [CHR 0x0A]),
       Fprintf (''NA1 NA1 0'' @ [CHR 0x0A]),
       Fprintf (''NA2 NA2 0'' @ [CHR 0x0A]),
       Fprintf (''NA3 NA3 0'' @ [CHR 0x0A]),
       Fclose,
       Bgzf_open ''out.gen.gz'' ''w'',
       Bgzf_write (''1:rs1'' @ [CHR 0x0A]),
       Bgzf_write (''1:rs3'' @ [CHR 0x0A]),
       Bgzf_close], None)"
  by code_simp

text \<open>
  C7, as amended. With a comma in the specifier, the genotype path is the text before
  the first comma, the sample path is the text after it, and the stream is compressed
  exactly when the genotype path ends in \<open>.gz\<close> once its letters are lowered, that is
  whatever the case of the suffix. Without a comma, the paths are the specifier with
  \<open>.gen.gz\<close> and with \<open>.samples\<close>, and the stream is compressed.
\<close>

theorem output_names_resolved:
  "(CHR '','' \<in> set outf \<longrightarrow>
      output_names outf =
        (takeWhile (\<lambda>c. c \<noteq> CHR '','') outf,
         tl (dropWhile (\<lambda>c. c \<noteq> CHR '','') outf),
         if suffix ''.gz'' (map tolower (takeWhile (\<lambda>c. c \<noteq> CHR '','') outf)) then 1 else 0)) \<and>
   (CHR '','' \<notin> set outf \<longrightarrow>
      output_names outf = (outf @ ''.gen.gz'', outf @ ''.samples'', 1))"
  unfolding output_names_def until_comma_eq prod.case at_dropWhile_comma Let_def is_compressed_iff
  by (simp add: drop_Suc)

theorem output_names_resolved_witness:
  "CHR '','' \<in> set ''a.gen,b.samples'' \<and>
   output_names ''a.gen,b.samples'' = (''a.gen'', ''b.samples'', 0) \<and>
   CHR '','' \<notin> set ''out'' \<and>
   output_names ''out'' = (''out.gen.gz'', ''out.samples'', 1)"
  using output_names_resolved [of "''a.gen,b.samples''"] output_names_resolved [of "''out''"]
  by (simp add: suffix_Cons)

text \<open>
  C7 as stated fails: the genotype path \<open>a.GZ\<close> does not end in \<open>.gz\<close>, and the stream
  is compressed, since the suffix is compared with \<^verbatim>\<open>strcasecmp\<close>.
\<close>

theorem output_names_counterexample:
  "output_names ''a.GZ,b'' = (''a.GZ'', ''b'', 1) \<and> \<not> suffix ''.gz'' ''a.GZ''"
  by (simp add: output_names_def strcasecmp_eq_def at_def NUL_def suffix_Cons)

text \<open>
  C6, as amended. For a sample specification other than \<open>-\<close> that does not start with
  \<open>^\<close>: if the list that \<^verbatim>\<open>hts_readlist\<close> resolves has not as many names as the header
  keeps after \<^verbatim>\<open>bcf_hdr_set_samples\<close>, then \<open>open_vcf\<close> ends with a fatal error, and the
  run of \<open>vcf_to_gensample\<close> ends with an error before any event. When the source opened
  and \<^verbatim>\<open>bcf_hdr_set_samples\<close> returned 0, the error is the one of the count check.
\<close>

theorem sample_count_mismatch_fatal:
  "sample_list args = Some sl \<and> sl \<noteq> ''-'' \<and> at sl 0 \<noteq> CHR ''^'' \<and>
   hts_readlist e sl (sample_is_file args) = Some smpls \<and>
   length smpls \<noteq> length (snd (set_samples e (reader_header e) sl (sample_is_file args)))
     \<longrightarrow> (\<exists>err. open_vcf e args fmt = Inl err) \<and>
         (\<exists>err. vcf_to_gensample e args ls = ([], Some err)) \<and>
         (\<not> (regions_list args \<noteq> None \<and> set_regions e < 0) \<and>
          \<not> (targets_list args \<noteq> None \<and> set_targets e < 0) \<and> add_reader e \<and>
          fst (set_samples e (reader_header e) sl (sample_is_file args)) = 0
            \<longrightarrow> open_vcf e args fmt = Inl Number_of_samples_does_not_match)"
proof (intro impI conjI)
  assume a: "sample_list args = Some sl \<and> sl \<noteq> ''-'' \<and> at sl 0 \<noteq> CHR ''^'' \<and>
   hts_readlist e sl (sample_is_file args) = Some smpls \<and>
   length smpls \<noteq> length (snd (set_samples e (reader_header e) sl (sample_is_file args)))"
  then have f: "\<exists>err. open_vcf e args f' = Inl err" for f'
    by (intro open_vcf_mismatch [of args sl e smpls]) simp_all
  from f show "\<exists>err. open_vcf e args fmt = Inl err" .
  from f [of "format_prefix @ ''%_GT_TO_PROB3'' @ [CHR 0x0A]"]
    f [of "format_prefix @ ''%_PL_TO_PROB3'' @ [CHR 0x0A]"]
  show "\<exists>err. vcf_to_gensample e args ls = ([], Some err)"
    by (auto simp add: vcf_to_gensample_def)
  assume b: "\<not> (regions_list args \<noteq> None \<and> set_regions e < 0) \<and>
          \<not> (targets_list args \<noteq> None \<and> set_targets e < 0) \<and> add_reader e \<and>
          fst (set_samples e (reader_header e) sl (sample_is_file args)) = 0"
  obtain ret hdr where s: "set_samples e (reader_header e) sl (sample_is_file args) = (ret, hdr)"
    by (cases "set_samples e (reader_header e) sl (sample_is_file args)")
  with a b have "length smpls \<noteq> length hdr" "ret = 0" by simp_all
  with a b s show "open_vcf e args fmt = Inl Number_of_samples_does_not_match"
    by (cases "filter_str args") (simp_all add: open_vcf_def Let_def)
qed

theorem sample_count_mismatch_fatal_witness:
  "at ''NA1,NA1'' 0 \<noteq> CHR ''^'' \<and>
   hts_readlist ex_env ''NA1,NA1'' 0 = Some [''NA1'', ''NA1''] \<and>
   set_samples ex_env (reader_header ex_env) ''NA1,NA1'' 0 = (0, [''NA1'']) \<and>
   open_vcf ex_env (args0\<lparr>sample_list := Some ''NA1,NA1''\<rparr>) [] = Inl Number_of_samples_does_not_match \<and>
   (\<exists>err. vcf_to_gensample ex_env (args0\<lparr>sample_list := Some ''NA1,NA1''\<rparr>) [] = ([], Some err))"
proof -
  have h: "at ''NA1,NA1'' 0 \<noteq> CHR ''^''"
    "hts_readlist ex_env ''NA1,NA1'' 0 = Some [''NA1'', ''NA1'']"
    "set_samples ex_env (reader_header ex_env) ''NA1,NA1'' 0 = (0, [''NA1''])"
    "add_reader ex_env"
    by (simp_all add: at_def ex_env_def)
  have s: "sample_is_file (args0\<lparr>sample_list := Some ''NA1,NA1''\<rparr>) = 0"
    "sample_list (args0\<lparr>sample_list := Some ''NA1,NA1''\<rparr>) = Some ''NA1,NA1''"
    "regions_list (args0\<lparr>sample_list := Some ''NA1,NA1''\<rparr>) = None"
    "targets_list (args0\<lparr>sample_list := Some ''NA1,NA1''\<rparr>) = None"
    by (simp_all add: args0_def)
  from sample_count_mismatch_fatal [of "args0\<lparr>sample_list := Some ''NA1,NA1''\<rparr>" "''NA1,NA1''"
      ex_env "[''NA1'', ''NA1'']" "[]" "[]"] h
  show ?thesis unfolding s by simp
qed

text \<open>
  C6 as stated fails for the specification \<open>-\<close>, which has no \<open>^\<close> prefix: line 99 keeps
  it away from the restriction and from the check, so with a list of one name and the
  three samples of the header the run goes on, with all three samples.
\<close>

theorem dash_samples_counterexample:
  "at ''-'' 0 \<noteq> CHR ''^'' \<and>
   hts_readlist ex_env ''-'' 0 = Some [''-''] \<and>
   opened_header (open_vcf ex_env (args0\<lparr>sample_list := Some ''-''\<rparr>) [])
     = Some [''NA1'', ''NA2'', ''NA3''] \<and>
   snd (vcf_to_gensample ex_env (args0\<lparr>sample_list := Some ''-''\<rparr>) []) = None"
  by code_simp

text \<open>
  For the specification \<open>-\<close> in general: when the source opens, the run goes on with
  every sample of the source, whatever the list and the other parameters are.
\<close>

lemma dash_keeps_every_sample:
  assumes "sample_list args = Some ''-''"
    "\<not> (regions_list args \<noteq> None \<and> set_regions e < 0)"
    "\<not> (targets_list args \<noteq> None \<and> set_targets e < 0)" "add_reader e"
  shows "opened_header (open_vcf e args fmt) = Some (reader_header e)"
  using assms
  by (cases "filter_str args") (simp_all add: open_vcf_def Let_def opened_header_def)

subsection \<open>The options\<close>

text \<open>
  C10. When the options hold both an exclude and an include expression and the source
  opens, the exclude bit of \<^verbatim>\<open>filter_logic\<close> is set, \<^verbatim>\<open>filter_str\<close> is the expression given
  last, the filter is made from this expression alone, and a site passes the gate
  exactly when the filter returns 0 for it: the result of the evaluator is negated.
\<close>

theorem include_and_exclude:
  "set_options args0 opts = Inr args \<and> (Short CHR ''e'', x) \<in> set opts \<and>
   (Short CHR ''i'', y) \<in> set opts \<and> open_vcf e args fmt = Inr args'
     \<longrightarrow> filter_logic args AND FLT_EXCLUDE \<noteq> 0 \<and>
         filter_str args = Some (snd (last (filter filter_opt opts))) \<and>
         filter_t args' = Some (filter_init e (header args') (snd (last (filter filter_opt opts)))) \<and>
         (\<forall>l. filter_pass args' l \<longleftrightarrow>
                filter_init e (header args') (snd (last (filter filter_opt opts))) l = 0)"
proof (intro impI)
  assume a: "set_options args0 opts = Inr args \<and> (Short CHR ''e'', x) \<in> set opts \<and>
   (Short CHR ''i'', y) \<in> set opts \<and> open_vcf e args fmt = Inr args'"
  then have so: "set_options args0 opts = Inr args" and ov: "open_vcf e args fmt = Inr args'"
    by simp_all
  from a have "filter_opt (Short CHR ''e'', x)" "(Short CHR ''e'', x) \<in> set opts"
    by (simp_all add: filter_opt_def)
  then have ne: "filter filter_opt opts \<noteq> []"
    by (auto simp add: filter_empty_conv)
  from set_options_exclude [OF so] a have ex: "filter_logic args AND FLT_EXCLUDE \<noteq> 0"
    by blast
  from set_options_filter_str [OF so] ne
  have fs: "filter_str args = Some (snd (last (filter filter_opt opts)))"
    by simp
  from open_vcf_filter [OF ov] fs ex
  have ft: "filter_t args' = Some (filter_init e (header args') (snd (last (filter filter_opt opts))))"
    and fl: "filter_logic args' AND FLT_EXCLUDE \<noteq> 0"
    by simp_all
  from ft fl have "\<forall>l. filter_pass args' l \<longleftrightarrow>
                filter_init e (header args') (snd (last (filter filter_opt opts))) l = 0"
    by (simp add: filter_pass_def Let_def)
  with ex fs ft show "filter_logic args AND FLT_EXCLUDE \<noteq> 0 \<and>
         filter_str args = Some (snd (last (filter filter_opt opts))) \<and>
         filter_t args' = Some (filter_init e (header args') (snd (last (filter filter_opt opts)))) \<and>
         (\<forall>l. filter_pass args' l \<longleftrightarrow>
                filter_init e (header args') (snd (last (filter filter_opt opts))) l = 0)"
    by blast
qed

theorem include_and_exclude_witness:
  "\<exists>args args'.
     set_options args0 [(Short CHR ''e'', ''POS<150''), (Short CHR ''i'', ''POS>150''),
                        (Short CHR ''g'', ''out'')] = Inr args \<and>
     open_vcf ex_env args [] = Inr args' \<and>
     filter_str args = Some ''POS>150'' \<and>
     \<not> filter_pass args' (ex_site ''rs1'' 200 [''A'']) \<and>
     filter_pass args' (ex_site ''rs0'' 100 [''A''])"
proof -
  let ?opts = "[(Short CHR ''e'', ''POS<150''), (Short CHR ''i'', ''POS>150''), (Short CHR ''g'', ''out'')]"
  obtain args where so: "set_options args0 ?opts = Inr args"
    by (simp add: set_option_def)
  have sl: "sample_list args = None" "regions_list args = None" "targets_list args = None"
    using so by (auto simp add: set_option_def args0_def)
  obtain args' where ov: "open_vcf ex_env args [] = Inr args'"
    using sl by (cases "filter_str args") (simp_all add: open_vcf_def ex_env_def Let_def)
  have l: "snd (last (filter filter_opt ?opts)) = ''POS>150''"
    by (simp add: filter_opt_def)
  have m: "(Short CHR ''e'', ''POS<150'') \<in> set ?opts" "(Short CHR ''i'', ''POS>150'') \<in> set ?opts"
    by simp_all
  have f: "filter_init ex_env h fs (ex_site nm p alts) = (if 150 < p then 1 else 0)" for h fs nm p alts
    by (simp add: ex_env_def)
  from include_and_exclude [of ?opts args "''POS<150''" "''POS>150''" ex_env "[]" args'] so ov m
  have "filter_str args = Some ''POS>150'' \<and>
     \<not> filter_pass args' (ex_site ''rs1'' 200 [''A'']) \<and>
     filter_pass args' (ex_site ''rs0'' 100 [''A''])"
    unfolding l by (simp add: f)
  with so ov show ?thesis by blast
qed

end
